theory Spec2Isabelle
  imports Complex_Main "HOL-Library.Multiset"
begin

section \<open>The DeepWalk trainer (examples/pytorch/deepwalk/deepwalk.py)\<close>

text \<open>
  A shallow embedding of \<^verbatim>\<open>DeepwalkTrainer\<close> and of the argument parser of the
  script. Python integers are \<open>int\<close>, lengths are \<open>nat\<close>, exceptions are values
  of the type \<open>error\<close>. A Python float is a value of the type \<open>pyfloat\<close>: an
  exact rational, an infinity or NaN; the rounding of float arithmetic is not modelled.
  The quotients of integers that are only rounded to an integer are exact rationals.
  The calls into the Skip-Gram model (\<^verbatim>\<open>fast_learn_super\<close>) and the shuffling of
  the walks are recorded as events of a trace, in program order.
\<close>

subsection \<open>Data\<close>

type_synonym walk = "nat list"

datatype error =
    AssertionError string
  | ZeroDivisionError string
  | ValueError string
  | SystemExit int

text \<open>
  The values of a Python float: the finite ones (exact, without rounding), the two
  infinities and NaN. \<^verbatim>\<open>float(s)\<close> accepts \<^verbatim>\<open>inf\<close> and \<^verbatim>\<open>nan\<close>, so that every
  one of them can be the value of a float option of the command line.
\<close>

datatype pyfloat = Fin rat | PInf | NInf | NaN

text \<open>The namespace returned by \<^verbatim>\<open>parser.parse_args()\<close>: one field per option.\<close>

record args =
  net_file :: "string option"
  emb_file :: string
  dim :: int
  window_size :: int
  num_walks :: int
  negative :: int
  iterations :: int
  batch_size :: int
  print_interval :: int
  walk_length :: int
  lr :: pyfloat
  neg_weight :: pyfloat
  lap_norm :: pyfloat
  mix :: bool
  only_cpu :: bool
  only_gpu :: bool
  fast_neg :: bool
  adam :: bool
  sgd :: bool
  avg_sgd :: bool
  num_threads :: int
  num_procs :: int

text \<open>
  What the trainer reads of \<^verbatim>\<open>DeepwalkDataset\<close>: \<^verbatim>\<open>len(dataset.net)\<close>,
  \<^verbatim>\<open>dataset.walks\<close> and \<^verbatim>\<open>dataset.neg_table\<close>.
\<close>

record dataset =
  net_size :: nat
  walks :: "walk list"
  neg_table :: "nat list"

text \<open>
  The sources of randomness, indexed by the occasion of the call: the permutation
  applied by the \<open>k\<close>-th call of \<^verbatim>\<open>shuffle_walks\<close>, and the random numbers that
  \<^verbatim>\<open>np.random.choice\<close> consumes in process \<open>p\<close> at step \<open>i\<close>.
\<close>

record env =
  shuffle_walks :: "nat \<Rightarrow> walk list \<Rightarrow> walk list"
  neg_tape :: "nat \<Rightarrow> int \<Rightarrow> nat \<Rightarrow> nat"

text \<open>
  The observable steps of training: a reshuffle of the walk list (with the new order),
  and a call \<^verbatim>\<open>fast_learn_super(walks, lr, neg_nodes)\<close> with its batch, its learning
  rate and the negative nodes drawn from the table (\<open>None\<close> when the call passes none).
\<close>

datatype event =
    Shuffle "walk list"
  | Learn "walk list" pyfloat "nat list option"

subsection \<open>Python and numpy primitives\<close>

text \<open>\<^verbatim>\<open>a / b\<close> on integers: true division, raising on a zero divisor.\<close>

definition true_div :: "int \<Rightarrow> int \<Rightarrow> error + rat" where
  "true_div a b =
     (if b = 0 then Inl (ZeroDivisionError ''division by zero'')
      else Inr (of_int a / of_int b))"

text \<open>
  \<^verbatim>\<open>x * k\<close> and \<^verbatim>\<open>x / k\<close> for a float \<open>x\<close> and an integer \<open>k\<close>, and
  \<^verbatim>\<open>x < c\<close> for a finite constant \<open>c\<close>. An infinity times zero is NaN, NaN
  stays NaN, and every comparison with NaN is false. The division is used for a
  non-zero divisor only: where the code divides, the model raises on zero first.
\<close>

fun fmul_int :: "pyfloat \<Rightarrow> int \<Rightarrow> pyfloat" where
  "fmul_int (Fin r) k = Fin (r * of_int k)"
| "fmul_int PInf k = (if 0 < k then PInf else if k < 0 then NInf else NaN)"
| "fmul_int NInf k = (if 0 < k then NInf else if k < 0 then PInf else NaN)"
| "fmul_int NaN k = NaN"

fun fdiv_int :: "pyfloat \<Rightarrow> int \<Rightarrow> pyfloat" where
  "fdiv_int (Fin r) k = Fin (r / of_int k)"
| "fdiv_int PInf k = (if k < 0 then NInf else PInf)"
| "fdiv_int NInf k = (if k < 0 then PInf else NInf)"
| "fdiv_int NaN k = NaN"

fun flt :: "pyfloat \<Rightarrow> rat \<Rightarrow> bool" where
  "flt (Fin r) c = (r < c)"
| "flt PInf c = False"
| "flt NInf c = True"
| "flt NaN c = False"

text \<open>\<^verbatim>\<open>x <= y\<close> on floats.\<close>

fun fle :: "pyfloat \<Rightarrow> pyfloat \<Rightarrow> bool" where
  "fle NaN y = False"
| "fle x NaN = False"
| "fle NInf y = True"
| "fle x PInf = True"
| "fle (Fin a) (Fin b) = (a \<le> b)"
| "fle x y = False"

text \<open>\<^verbatim>\<open>int(x)\<close> on a float truncates toward zero.\<close>

definition py_int :: "rat \<Rightarrow> int" where
  "py_int q = (if q < 0 then \<lceil>q\<rceil> else \<lfloor>q\<rfloor>)"

text \<open>
  \<^verbatim>\<open>xs[a:b]\<close>: a negative bound counts from the end, every bound is clamped to
  \<open>[0, len(xs)]\<close>, and the slice is empty when the bounds cross.
\<close>

definition slice_bound :: "nat \<Rightarrow> int \<Rightarrow> nat" where
  "slice_bound n k = (if k < 0 then nat (max 0 (int n + k)) else min n (nat k))"

definition py_slice :: "'a list \<Rightarrow> int \<Rightarrow> int \<Rightarrow> 'a list" where
  "py_slice xs a b =
     (let lo = slice_bound (length xs) a; hi = slice_bound (length xs) b
      in take (hi - lo) (drop lo xs))"

text \<open>
  \<^verbatim>\<open>np.random.choice(a, n, replace=True)\<close>: \<open>n\<close> elements of \<open>a\<close>, each at
  a random position; a negative size and an empty \<open>a\<close> with a positive size raise
  \<^verbatim>\<open>ValueError\<close>.
\<close>

definition np_random_choice :: "(nat \<Rightarrow> nat) \<Rightarrow> nat list \<Rightarrow> int \<Rightarrow> error + nat list" where
  "np_random_choice tape a n =
     (if n < 0 then Inl (ValueError ''negative dimensions are not allowed'')
      else if a = [] \<and> n \<noteq> 0
        then Inl (ValueError ''a cannot be empty unless no samples are taken'')
      else Inr (map (\<lambda>k. a ! (tape k mod length a)) [0..<nat n]))"

subsection \<open>init_device_emb\<close>

text \<open>
  The three assertions of \<^verbatim>\<open>init_device_emb\<close>, in the order of the source;
  \<^verbatim>\<open>sum\<close> over a list of booleans counts the true ones. The construction of the
  \<^verbatim>\<open>SkipGramModel\<close> and its placement on a device follow the assertions and are
  outside this model.
\<close>

definition init_device_emb :: "args \<Rightarrow> error + unit" where
  "init_device_emb a =
     (let choices = (of_bool (only_gpu a) + of_bool (only_cpu a) + of_bool (mix a) :: int) in
      if choices \<noteq> 1 then
        Inl (AssertionError ''Must choose only *one* training mode in [only_cpu, only_gpu, mix]'')
      else if \<not> num_procs a \<ge> 1 then
        Inl (AssertionError ''The number of process must be larger than 1'')
      else
        let choices = (of_bool (sgd a) + of_bool (adam a) + of_bool (avg_sgd a) :: int) in
        if choices \<noteq> 1 then
          Inl (AssertionError ''Must choose only *one* gradient descent strategy in [sgd, avg_sgd, adam]'')
        else Inr ())"

subsection \<open>The training loop\<close>

text \<open>
  Lines 120-122 (and 172-174): the decayed learning rate of step \<open>i\<close>. The float
  division raises when \<open>max_i\<close> is zero. A rate that is NaN is not below
  \<open>0.00001\<close> and stays NaN.
\<close>

definition decayed_lr :: "pyfloat \<Rightarrow> int \<Rightarrow> int \<Rightarrow> error + pyfloat" where
  "decayed_lr lr0 max_i i =
     (if max_i = 0 then Inl (ZeroDivisionError ''float division by zero'')
      else
        let r = fdiv_int (fmul_int lr0 (max_i - i)) max_i
        in Inr (if flt r (1 / 100000) then Fin (1 / 100000) else r))"

text \<open>The number of positive node pairs of one walk (lines 107-108 and 152-154).\<close>

definition num_pos :: "args \<Rightarrow> int" where
  "num_pos a = 2 * walk_length a * window_size a - window_size a * (window_size a + 1)"

text \<open>\<^verbatim>\<open>int(np.ceil(n / batch_size))\<close>.\<close>

definition num_batches :: "int \<Rightarrow> int \<Rightarrow> error + int" where
  "num_batches n bs =
     (case true_div n bs of Inl e \<Rightarrow> Inl e | Inr q \<Rightarrow> Inr \<lceil>q\<rceil>)"

text \<open>
  One pass through the body of \<^verbatim>\<open>while True\<close> (lines 118-147 and 170-199, the same
  text in both functions) at step counter \<open>i\<close> (\<open>i'\<close> and \<open>walks'\<close> are the
  source's \<^verbatim>\<open>i_\<close> and \<^verbatim>\<open>walks_\<close>): the loop stops without a learning step (on
  an exception or on an empty batch), or performs one learning step and then goes on,
  leaves the loop, or raises.
\<close>

datatype control = Continue | Break | Raise error

datatype step =
    Stop "error option"
  | Do event control

text \<open>
  Lines 142-147 (and 194-199), after the learning step: the counter is incremented, the
  test \<^verbatim>\<open>i > 0 and i % self.args.print_interval == 0\<close> for the progress message is
  evaluated, and the loop is left after the last batch. The modulo raises when
  \<open>print_interval\<close> is zero; the message itself is not modelled.
\<close>

definition after_step :: "args \<Rightarrow> int \<Rightarrow> int \<Rightarrow> int \<Rightarrow> control" where
  "after_step a nb i' i0 =
     (let i = i0 + 1 in
      if i > 0 \<and> print_interval a = 0
        then Raise (ZeroDivisionError ''integer division or modulo by zero'')
      else if i' = nb - 1 then Break
      else Continue)"

definition loop_body ::
  "(int \<Rightarrow> nat \<Rightarrow> nat) \<Rightarrow> args \<Rightarrow> nat list \<Rightarrow> walk list \<Rightarrow> int \<Rightarrow> int \<Rightarrow> int \<Rightarrow> step" where
  "loop_body tape a table ws nb max_i i =
     (case decayed_lr (lr a) max_i i of
        Inl e \<Rightarrow> Stop (Some e)
      | Inr r \<Rightarrow>
          if nb = 0 then Stop (Some (ZeroDivisionError ''integer division or modulo by zero''))
          else
            let i' = i mod nb;
                walks' = py_slice ws (i' * batch_size a) ((1 + i') * batch_size a)
            in
              if length walks' = 0 then Stop None
              else if fast_neg a then Do (Learn walks' r None) (after_step a nb i' i)
              else
                let bs = int (length walks') in
                (case np_random_choice (tape i) table (bs * num_pos a * negative a) of
                   Inl e \<Rightarrow> Stop (Some e)
                 | Inr neg_nodes \<Rightarrow>
                     Do (Learn walks' r (Some neg_nodes)) (after_step a nb i' i)))"

text \<open>
  The loop itself. It returns the learning steps it made, the final step counter and
  the exception that ended it, if any; \<open>None\<close> is a loop that never ends.
\<close>

partial_function (option) batch_loop ::
  "(int \<Rightarrow> nat \<Rightarrow> nat) \<Rightarrow> args \<Rightarrow> nat list \<Rightarrow> walk list \<Rightarrow> int \<Rightarrow> int \<Rightarrow> int
     \<Rightarrow> (event list \<times> int \<times> error option) option" where
  "batch_loop tape a table ws nb max_i i =
     (case loop_body tape a table ws nb max_i i of
        Stop st \<Rightarrow> Some ([], i, st)
      | Do ev c \<Rightarrow>
          if c = Continue
            then Option.bind (batch_loop tape a table ws nb max_i (i + 1))
                   (\<lambda>(evs, r). Some (ev # evs, r))
            else Some ([ev], i + 1, (case c of Raise e \<Rightarrow> Some e | _ \<Rightarrow> None)))"

declare batch_loop.simps [code]


subsection \<open>fast_train_sp, fast_train, fast_train_mp\<close>

text \<open>
  \<^verbatim>\<open>fast_train_sp(walks, gpu_id)\<close>: the work of one process on its walks. The
  result is the trace of the process and the exception that ended it, if any.
\<close>

definition fast_train_sp ::
  "env \<Rightarrow> args \<Rightarrow> dataset \<Rightarrow> walk list \<Rightarrow> nat \<Rightarrow> (event list \<times> error option) option" where
  "fast_train_sp en a ds ws gpu_id =
     (case num_batches (int (length ws)) (batch_size a) of
        Inl e \<Rightarrow> Some ([], Some e)
      | Inr nb \<Rightarrow>
          let i = 0; max_i = iterations a * nb
          in map_option (\<lambda>(evs, i, st). (evs, st))
               (batch_loop (neg_tape en gpu_id) a (neg_table ds) ws nb max_i i))"

text \<open>
  The \<^verbatim>\<open>for iteration in range(self.args.iterations)\<close> of \<^verbatim>\<open>fast_train\<close>, with
  \<open>n\<close> iterations to go; \<open>ws\<close> is \<^verbatim>\<open>self.dataset.walks\<close> and \<open>i\<close> the step
  counter, both carried from one iteration to the next.
\<close>

fun train_epochs ::
  "env \<Rightarrow> args \<Rightarrow> nat list \<Rightarrow> int \<Rightarrow> int \<Rightarrow> nat \<Rightarrow> nat \<Rightarrow> int \<Rightarrow> walk list
     \<Rightarrow> (event list \<times> error option) option" where
  "train_epochs en a table nb max_i 0 iteration i ws = Some ([], None)"
| "train_epochs en a table nb max_i (Suc n) iteration i ws =
     (let ws' = shuffle_walks en iteration ws in
      case batch_loop (neg_tape en 0) a table ws' nb max_i i of
        None \<Rightarrow> None
      | Some (evs, i', Some e) \<Rightarrow> Some (Shuffle ws' # evs, Some e)
      | Some (evs, i', None) \<Rightarrow>
          (case train_epochs en a table nb max_i n (Suc iteration) i' ws' of
             None \<Rightarrow> None
           | Some (evs', st) \<Rightarrow> Some (Shuffle ws' # evs @ evs', st)))"

text \<open>
  \<^verbatim>\<open>fast_train\<close>: the batch count is computed before \<^verbatim>\<open>init_device_emb\<close> is
  called. The final \<^verbatim>\<open>save_embedding\<close> is outside this model.
\<close>

definition fast_train :: "env \<Rightarrow> args \<Rightarrow> dataset \<Rightarrow> (event list \<times> error option) option" where
  "fast_train en a ds =
     (case num_batches (int (net_size ds) * num_walks a) (batch_size a) of
        Inl e \<Rightarrow> Some ([], Some e)
      | Inr nb \<Rightarrow>
          (case init_device_emb a of
             Inl e \<Rightarrow> Some ([], Some e)
           | Inr _ \<Rightarrow>
               let i = 0; max_i = iterations a * nb
               in train_epochs en a (neg_table ds) nb max_i (nat (iterations a)) 0 i (walks ds)))"

text \<open>
  The bounds of the slice that \<^verbatim>\<open>fast_train_mp\<close> hands to process \<open>i\<close>:
  \<^verbatim>\<open>int(i * l / np_)\<close> and \<^verbatim>\<open>int((i + 1) * l / np_)\<close>. The loop over
  \<^verbatim>\<open>range(np_)\<close> has no iteration when \<open>np_\<close> is zero, so that the division is
  never by zero.
\<close>

definition shard_bound :: "int \<Rightarrow> int \<Rightarrow> int \<Rightarrow> int" where
  "shard_bound l np i = py_int (of_int (i * l) / of_int np)"

definition shard :: "'a list \<Rightarrow> int \<Rightarrow> int \<Rightarrow> 'a list" where
  "shard ws np i =
     (let l = int (length ws)
      in py_slice ws (shard_bound l np i) (shard_bound l np (i + 1)))"

text \<open>
  \<^verbatim>\<open>fast_train_mp\<close>: after the check and one shuffle, one process per shard. The
  processes share nothing in this model but the arguments; the result lists what each
  process did, in the order of their numbers. An exception in a process ends that
  process only.
\<close>

definition fast_train_mp ::
  "env \<Rightarrow> args \<Rightarrow> dataset \<Rightarrow> error + (event list \<times> error option) option list" where
  "fast_train_mp en a ds =
     (case init_device_emb a of
        Inl e \<Rightarrow> Inl e
      | Inr _ \<Rightarrow>
          let ws = shuffle_walks en 0 (walks ds); np = num_procs a
          in Inr (map (\<lambda>i. fast_train_sp en a ds (shard ws np (int i)) i) [0..<nat np]))"

subsection \<open>The argument parser\<close>

text \<open>
  The options declared by the script, each with the effect of its action on the
  namespace: \<^verbatim>\<open>store_true\<close> stores the constant \<open>True\<close>, the default action
  stores the converted value of the next token.
\<close>

datatype action =
    Store_true "args \<Rightarrow> args"
  | Store_str "string \<Rightarrow> args \<Rightarrow> args"
  | Store_int "int \<Rightarrow> args \<Rightarrow> args"
  | Store_float "pyfloat \<Rightarrow> args \<Rightarrow> args"

definition parser :: "(string \<times> action) list" where
  "parser =
    [(''--net_file'', Store_str (\<lambda>v a. a\<lparr>net_file := Some v\<rparr>)),
     (''--emb_file'', Store_str (\<lambda>v a. a\<lparr>emb_file := v\<rparr>)),
     (''--dim'', Store_int (\<lambda>v a. a\<lparr>dim := v\<rparr>)),
     (''--window_size'', Store_int (\<lambda>v a. a\<lparr>window_size := v\<rparr>)),
     (''--num_walks'', Store_int (\<lambda>v a. a\<lparr>num_walks := v\<rparr>)),
     (''--negative'', Store_int (\<lambda>v a. a\<lparr>negative := v\<rparr>)),
     (''--iterations'', Store_int (\<lambda>v a. a\<lparr>iterations := v\<rparr>)),
     (''--batch_size'', Store_int (\<lambda>v a. a\<lparr>batch_size := v\<rparr>)),
     (''--print_interval'', Store_int (\<lambda>v a. a\<lparr>print_interval := v\<rparr>)),
     (''--walk_length'', Store_int (\<lambda>v a. a\<lparr>walk_length := v\<rparr>)),
     (''--lr'', Store_float (\<lambda>v a. a\<lparr>lr := v\<rparr>)),
     (''--neg_weight'', Store_float (\<lambda>v a. a\<lparr>neg_weight := v\<rparr>)),
     (''--lap_norm'', Store_float (\<lambda>v a. a\<lparr>lap_norm := v\<rparr>)),
     (''--mix'', Store_true (\<lambda>a. a\<lparr>mix := True\<rparr>)),
     (''--only_cpu'', Store_true (\<lambda>a. a\<lparr>only_cpu := True\<rparr>)),
     (''--only_gpu'', Store_true (\<lambda>a. a\<lparr>only_gpu := True\<rparr>)),
     (''--fast_neg'', Store_true (\<lambda>a. a\<lparr>fast_neg := True\<rparr>)),
     (''--adam'', Store_true (\<lambda>a. a\<lparr>adam := True\<rparr>)),
     (''--sgd'', Store_true (\<lambda>a. a\<lparr>sgd := True\<rparr>)),
     (''--avg_sgd'', Store_true (\<lambda>a. a\<lparr>avg_sgd := True\<rparr>)),
     (''--num_threads'', Store_int (\<lambda>v a. a\<lparr>num_threads := v\<rparr>)),
     (''--num_procs'', Store_int (\<lambda>v a. a\<lparr>num_procs := v\<rparr>))]"

text \<open>The \<^verbatim>\<open>default=\<close> of every option.\<close>

definition defaults :: args where
  "defaults =
    \<lparr>net_file = None, emb_file = ''emb.txt'', dim = 128, window_size = 5, num_walks = 10,
     negative = 5, iterations = 1, batch_size = 10, print_interval = 1000,
     walk_length = 80, lr = Fin (2 / 10), neg_weight = Fin 1, lap_norm = Fin (1 / 100),
     mix = False,
     only_cpu = False, only_gpu = False, fast_neg = True, adam = False, sgd = False,
     avg_sgd = False, num_threads = 8, num_procs = 1\<rparr>"

text \<open>
  The conversions \<^verbatim>\<open>int(s)\<close> and \<^verbatim>\<open>float(s)\<close> of an option value are parameters
  of the model; \<open>None\<close> is a value that does not convert.
\<close>

record conv =
  to_int :: "string \<Rightarrow> int option"
  to_float :: "string \<Rightarrow> pyfloat option"

text \<open>
  \<^verbatim>\<open>parse_args\<close> on the tokens of the command line: every token must be the name of
  a declared option, a storing option takes the next token as its value, and anything
  else ends the program with status 2. Abbreviated option names, the form
  \<^verbatim>\<open>--name=value\<close> and \<^verbatim>\<open>--help\<close> are not modelled; they add no action.
\<close>

fun parse_tokens :: "conv \<Rightarrow> string list \<Rightarrow> args \<Rightarrow> error + args" where
  "parse_tokens c [] ns = Inr ns"
| "parse_tokens c (t # ts) ns =
     (case map_of parser t of
        None \<Rightarrow> Inl (SystemExit 2)
      | Some (Store_true f) \<Rightarrow> parse_tokens c ts (f ns)
      | Some (Store_str f) \<Rightarrow>
          (case ts of
             [] \<Rightarrow> Inl (SystemExit 2)
           | v # ts' \<Rightarrow> parse_tokens c ts' (f v ns))
      | Some (Store_int f) \<Rightarrow>
          (case ts of
             [] \<Rightarrow> Inl (SystemExit 2)
           | v # ts' \<Rightarrow>
               (case to_int c v of
                  None \<Rightarrow> Inl (SystemExit 2)
                | Some x \<Rightarrow> parse_tokens c ts' (f x ns)))
      | Some (Store_float f) \<Rightarrow>
          (case ts of
             [] \<Rightarrow> Inl (SystemExit 2)
           | v # ts' \<Rightarrow>
               (case to_float c v of
                  None \<Rightarrow> Inl (SystemExit 2)
                | Some x \<Rightarrow> parse_tokens c ts' (f x ns))))"

definition parse_args :: "conv \<Rightarrow> string list \<Rightarrow> error + args" where
  "parse_args c argv = parse_tokens c argv defaults"

text \<open>\<^verbatim>\<open>train\<close>: the choice between the two training paths.\<close>

definition train ::
  "env \<Rightarrow> args \<Rightarrow> dataset \<Rightarrow>
     (event list \<times> error option) option + (error + (event list \<times> error option) option list)" where
  "train en a ds =
     (if num_procs a > 1 then Inr (fast_train_mp en a ds) else Inl (fast_train en a ds))"


subsection \<open>The vocabulary of the specification\<close>

text \<open>
  The schedule in the words of the specification: the initial rate scaled by the part
  of the horizon that is left, clamped below at \<open>1e-5\<close>.
\<close>

definition lr_schedule :: "pyfloat \<Rightarrow> int \<Rightarrow> int \<Rightarrow> pyfloat" where
  "lr_schedule initial_lr max_steps i =
     (let v = fdiv_int (fmul_int initial_lr (max_steps - i)) max_steps
      in if flt v (1 / 100000) then Fin (1 / 100000) else v)"

text \<open>The learning rates of the learning steps of a trace, in order.\<close>

fun rates :: "event list \<Rightarrow> pyfloat list" where
  "rates [] = []"
| "rates (Shuffle ws # evs) = rates evs"
| "rates (Learn b r n # evs) = r # rates evs"

text \<open>The \<open>k\<close>-th batch of a walk list cut into batches of \<open>bs\<close> walks.\<close>

definition batch_of :: "walk list \<Rightarrow> int \<Rightarrow> nat \<Rightarrow> walk list" where
  "batch_of ws bs k = take (nat bs) (drop (k * nat bs) ws)"






text \<open>
  The batch counts in the words of the specification: the number of walks of the whole
  graph, and of one shard, divided by the batch size and rounded up.
\<close>

definition epoch_batches :: "args \<Rightarrow> dataset \<Rightarrow> int" where
  "epoch_batches a ds =
     \<lceil>(of_int (int (net_size ds) * num_walks a) :: rat) / of_int (batch_size a)\<rceil>"

definition shard_batches :: "args \<Rightarrow> walk list \<Rightarrow> int" where
  "shard_batches a ws = \<lceil>(of_int (int (length ws)) :: rat) / of_int (batch_size a)\<rceil>"

text \<open>
  The horizon of a process in the words of the specification: the iteration count times
  the number of batches of its own walks.
\<close>

definition local_horizon :: "args \<Rightarrow> walk list \<Rightarrow> int" where
  "local_horizon a ws =
     iterations a * \<lceil>(of_int (int (length ws)) :: rat) / of_int (batch_size a)\<rceil>"

text \<open>
  A small configuration on which the theorems below are instantiated: three walks on a
  triangle, batches of two walks, two iterations, negative nodes drawn from the table.
\<close>

definition example_env :: env where
  "example_env = \<lparr>shuffle_walks = (\<lambda>k ws. rev ws), neg_tape = (\<lambda>p i k. k)\<rparr>"

definition example_dataset :: dataset where
  "example_dataset = \<lparr>net_size = 3, walks = [[0, 1], [1, 2], [2, 0]], neg_table = [0, 1, 2]\<rparr>"

definition example_args :: args where
  "example_args =
     defaults\<lparr>num_walks := 1, negative := 1, window_size := 1, walk_length := 2,
       batch_size := 2, iterations := 2, only_cpu := True, sgd := True, fast_neg := False\<rparr>"

section \<open>Properties\<close>

subsection \<open>Slices and shards\<close>

lemma py_int_div:
  assumes "0 \<le> a" "0 < b"
  shows "py_int (of_int a / of_int b) = a div b"
proof -
  have "\<not> (of_int a / of_int b :: rat) < 0"
    using assms by (simp add: divide_less_0_iff)
  then show ?thesis
    by (simp add: py_int_def floor_divide_of_int_eq)
qed

lemma shard_bound_div:
  assumes "0 \<le> i" "0 \<le> l" "0 < np"
  shows "shard_bound l np i = (i * l) div np"
  unfolding shard_bound_def using assms by (intro py_int_div) simp_all

lemma shard_bound_zero: "0 \<le> l \<Longrightarrow> 0 < np \<Longrightarrow> shard_bound l np 0 = 0"
  by (simp add: shard_bound_div)

lemma shard_bound_last: "0 \<le> l \<Longrightarrow> 0 < np \<Longrightarrow> shard_bound l np np = l"
  by (simp add: shard_bound_div)

lemma shard_bound_nonneg:
  "0 \<le> i \<Longrightarrow> 0 \<le> l \<Longrightarrow> 0 < np \<Longrightarrow> 0 \<le> shard_bound l np i"
  by (simp add: shard_bound_div pos_imp_zdiv_nonneg_iff)

lemma shard_bound_mono:
  assumes "0 \<le> i" "i \<le> j" "0 \<le> l" "0 < np"
  shows "shard_bound l np i \<le> shard_bound l np j"
proof -
  have "i * l \<le> j * l" using assms by (simp add: mult_right_mono)
  then have "(i * l) div np \<le> (j * l) div np" using assms by (simp add: zdiv_mono1)
  then show ?thesis using assms by (simp add: shard_bound_div)
qed

lemma py_slice_take_drop:
  assumes "0 \<le> lo" "lo \<le> hi" "hi \<le> int (length xs)"
  shows "py_slice xs lo hi = take (nat hi - nat lo) (drop (nat lo) xs)"
proof -
  have "slice_bound (length xs) lo = nat lo" "slice_bound (length xs) hi = nat hi"
    using assms by (auto simp: slice_bound_def)
  then show ?thesis by (simp add: py_slice_def Let_def)
qed

lemma take_drop_nth:
  assumes "hi \<le> length xs"
  shows "take (hi - lo) (drop lo xs) = map (\<lambda>k. xs ! k) [lo..<hi]"
proof (rule sym, rule map_upt_eqI)
  show "length (take (hi - lo) (drop lo xs)) = hi - lo" using assms by simp
  show "take (hi - lo) (drop lo xs) ! i = xs ! (lo + i)"
    if "i < length (take (hi - lo) (drop lo xs))" for i
    using that assms by simp
qed

lemma shard_take_drop:
  assumes "0 \<le> i" "i < np"
  shows "shard ws np i =
    take (nat (shard_bound (int (length ws)) np (i + 1)) - nat (shard_bound (int (length ws)) np i))
      (drop (nat (shard_bound (int (length ws)) np i)) ws)"
proof -
  let ?l = "int (length ws)"
  have np: "0 < np" using assms by simp
  have "0 \<le> shard_bound ?l np i" using assms np by (simp add: shard_bound_nonneg)
  moreover have "shard_bound ?l np i \<le> shard_bound ?l np (i + 1)"
    using assms np by (simp add: shard_bound_mono)
  moreover have "shard_bound ?l np (i + 1) \<le> shard_bound ?l np np"
    using assms np by (intro shard_bound_mono) simp_all
  then have "shard_bound ?l np (i + 1) \<le> ?l" using np by (simp add: shard_bound_last)
  ultimately show ?thesis unfolding shard_def Let_def by (rule py_slice_take_drop)
qed

lemma shard_nth:
  assumes "0 \<le> i" "i < np"
  shows "shard ws np i = map (\<lambda>k. ws ! k)
     [nat (shard_bound (int (length ws)) np i)..<nat (shard_bound (int (length ws)) np (i + 1))]"
proof -
  let ?l = "int (length ws)"
  have np: "0 < np" using assms by simp
  have "shard_bound ?l np (i + 1) \<le> shard_bound ?l np np"
    using assms np by (intro shard_bound_mono) simp_all
  then have le: "nat (shard_bound ?l np (i + 1)) \<le> length ws" using np by (simp add: shard_bound_last)
  then show ?thesis using assms by (simp only: shard_take_drop take_drop_nth)
qed

lemma concat_cuts:
  fixes b :: "nat \<Rightarrow> nat"
  assumes "b 0 = 0" "\<And>i. i < n \<Longrightarrow> b i \<le> b (Suc i)"
  shows "concat (map (\<lambda>i. take (b (Suc i) - b i) (drop (b i) xs)) [0..<n]) = take (b n) xs"
  using assms(2)
proof (induction n)
  case 0
  then show ?case using assms(1) by simp
next
  case (Suc n)
  have "take (b n) xs @ take (b (Suc n) - b n) (drop (b n) xs) = take (b (Suc n)) xs"
    using Suc.prems[of n] by (metis le_add_diff_inverse lessI take_add)
  then show ?case using Suc by simp
qed

lemma shards_concat:
  assumes "1 \<le> np"
  shows "concat (map (\<lambda>i. shard ws np (int i)) [0..<nat np]) = ws"
proof -
  let ?l = "int (length ws)"
  let ?b = "\<lambda>i. nat (shard_bound ?l np (int i))"
  have np: "0 < np" using assms by simp
  have eq: "map (\<lambda>i. shard ws np (int i)) [0..<nat np] =
      map (\<lambda>i. take (?b (Suc i) - ?b i) (drop (?b i) ws)) [0..<nat np]"
    by (rule map_cong[OF refl]) (use np in \<open>simp add: shard_take_drop add.commute\<close>)
  have "concat (map (\<lambda>i. take (?b (Suc i) - ?b i) (drop (?b i) ws)) [0..<nat np]) = take (?b (nat np)) ws"
  proof (rule concat_cuts)
    show "?b 0 = 0" using np by (simp add: shard_bound_zero)
    show "?b i \<le> ?b (Suc i)" if "i < nat np" for i
      using np by (intro nat_mono shard_bound_mono) simp_all
  qed
  moreover have "?b (nat np) = length ws" using np by (simp add: shard_bound_last)
  ultimately have "concat (map (\<lambda>i. take (?b (Suc i) - ?b i) (drop (?b i) ws)) [0..<nat np]) = ws"
    by simp
  then show ?thesis by (simp only: eq)
qed

lemma shards_index_unique:
  assumes "1 \<le> np" "k < length ws"
  shows "\<exists>!i. 0 \<le> i \<and> i < np \<and>
     shard_bound (int (length ws)) np i \<le> int k \<and> int k < shard_bound (int (length ws)) np (i + 1)"
proof -
  let ?l = "int (length ws)"
  let ?B = "shard_bound ?l np"
  have np: "0 < np" using assms by simp
  have mono: "?B i \<le> ?B j" if "0 \<le> i" "i \<le> j" for i j
    using that np by (simp add: shard_bound_mono)
  define S where "S = {i. 0 \<le> i \<and> i \<le> np \<and> ?B i \<le> int k}"
  have fin: "finite S"
  proof (rule finite_subset)
    show "S \<subseteq> {0..np}" by (auto simp: S_def)
  qed simp
  have "0 \<in> S" using np by (simp add: S_def shard_bound_zero)
  then have ne: "S \<noteq> {}" by auto
  define m where "m = Max S"
  have mS: "m \<in> S" unfolding m_def using fin ne by (rule Max_in)
  have mmax: "i \<le> m" if "i \<in> S" for i unfolding m_def using fin that by (rule Max_ge)
  have "np \<notin> S" using assms np by (simp add: S_def shard_bound_last)
  with mS have mlt: "m < np" by (auto simp: S_def less_le)
  have "m + 1 \<notin> S" using mmax[of "m + 1"] by auto
  with mS mlt have up: "int k < ?B (m + 1)" by (auto simp: S_def)
  show ?thesis
  proof (rule ex1I[of _ m])
    show "0 \<le> m \<and> m < np \<and> ?B m \<le> int k \<and> int k < ?B (m + 1)"
      using mS mlt up by (auto simp: S_def)
  next
    fix i assume i: "0 \<le> i \<and> i < np \<and> ?B i \<le> int k \<and> int k < ?B (i + 1)"
    show "i = m"
    proof (rule ccontr)
      assume "i \<noteq> m"
      then consider "i < m" | "m < i" by linarith
      then show False
      proof cases
        case 1
        then have "?B (i + 1) \<le> ?B m" using i by (intro mono) simp_all
        then show False using i mS by (auto simp: S_def)
      next
        case 2
        then have "?B (m + 1) \<le> ?B i" using mS by (intro mono) (auto simp: S_def)
        then show False using i up by simp
      qed
    qed
  qed
qed

text \<open>
  C2. In multi-process mode the shards of the shuffled walk list, shard \<open>i\<close> being
  \<^verbatim>\<open>walks[int(i*L/P) : int((i+1)*L/P)]\<close>, are a disjoint cover of the list, for every
  length \<open>L \<ge> 0\<close> and every \<open>P \<ge> 1\<close>: the shards put one after the other are the
  list itself, shard \<open>i\<close> holds exactly the walks at the positions from its lower bound
  up to its upper bound, and every position below \<open>L\<close> lies between the bounds of
  exactly one shard.
\<close>

theorem shards_disjoint_cover:
  assumes "1 \<le> np"
  shows "concat (map (\<lambda>i. shard ws np (int i)) [0..<nat np]) = ws
    \<and> (\<forall>i. 0 \<le> i \<and> i < np \<longrightarrow>
          shard ws np i = map (\<lambda>k. ws ! k)
            [nat (shard_bound (int (length ws)) np i)..<
             nat (shard_bound (int (length ws)) np (i + 1))])
    \<and> (\<forall>k<length ws. \<exists>!i. 0 \<le> i \<and> i < np
          \<and> shard_bound (int (length ws)) np i \<le> int k
          \<and> int k < shard_bound (int (length ws)) np (i + 1))"
  using assms shards_concat shard_nth shards_index_unique by blast

theorem shards_disjoint_cover_witness:
  "(1::int) \<le> 2
   \<and> concat (map (\<lambda>i. shard [[0, 1], [1, 2], [2, 3], [3, 4], [4, 0::nat]] 2 (int i)) [0..<nat 2])
       = [[0, 1], [1, 2], [2, 3], [3, 4], [4, 0]]
   \<and> shard [[0, 1], [1, 2], [2, 3], [3, 4], [4, 0::nat]] 2 1 = [[2, 3], [3, 4], [4, 0]]
   \<and> (\<exists>!i. 0 \<le> i \<and> i < 2 \<and> shard_bound 5 2 i \<le> 3 \<and> 3 < shard_bound 5 2 (i + 1))"
proof -
  have h: "(1::int) \<le> 2" by simp
  have b: "shard_bound 5 2 1 = 2" "shard_bound 5 2 2 = 5"
    by (simp_all add: shard_bound_div)
  note t = shards_disjoint_cover [OF h, of "[[0, 1], [1, 2], [2, 3], [3, 4], [4, 0::nat]]"]
  have "shard [[0, 1], [1, 2], [2, 3], [3, 4], [4, 0::nat]] 2 1 = [[2, 3], [3, 4], [4, 0]]"
    using t b by (simp add: upt_conv_Cons)
  moreover have "\<exists>!i. 0 \<le> i \<and> i < 2 \<and> shard_bound 5 2 i \<le> 3 \<and> 3 < shard_bound 5 2 (i + 1)"
    using t by (auto dest!: spec[of _ "3::nat"])
  ultimately show ?thesis using h t by blast
qed

subsection \<open>Validation of the configuration\<close>

lemma init_device_emb_fails_iff:
  "(\<exists>m. init_device_emb a = Inl (AssertionError m)) \<longleftrightarrow>
     length (filter (\<lambda>b. b) [only_cpu a, only_gpu a, mix a]) \<noteq> 1
     \<or> length (filter (\<lambda>b. b) [sgd a, adam a, avg_sgd a]) \<noteq> 1
     \<or> num_procs a < 1"
  by (auto simp: init_device_emb_def Let_def)

lemma init_device_emb_cases:
  "init_device_emb a = Inr () \<or> (\<exists>m. init_device_emb a = Inl (AssertionError m))"
  by (simp add: init_device_emb_def Let_def)

lemma fast_train_init_fails:
  assumes "init_device_emb a = Inl e"
  shows "fast_train en a ds =
     Some ([], Some (if batch_size a = 0 then ZeroDivisionError ''division by zero'' else e))"
  using assms by (simp add: fast_train_def num_batches_def true_div_def)

lemma fast_train_mp_init_fails:
  "init_device_emb a = Inl e \<Longrightarrow> fast_train_mp en a ds = Inl e"
  by (simp add: fast_train_mp_def)

text \<open>
  C4. \<^verbatim>\<open>init_device_emb\<close> fails, with an assertion failure, if and only if the
  configuration does not select exactly one of \<open>only_cpu\<close>, \<open>only_gpu\<close>, \<open>mix\<close>, or
  does not select exactly one of \<open>sgd\<close>, \<open>adam\<close>, \<open>avg_sgd\<close>, or has
  \<open>num_procs < 1\<close>; it fails in no other way. In both training paths the check comes
  before any learning step: when it fails, \<^verbatim>\<open>fast_train_mp\<close> starts no process and
  raises the failure, and \<^verbatim>\<open>fast_train\<close> ends with an empty trace (with the failure
  of the check, unless the batch count computed before the check has already divided
  by a zero batch size).
\<close>

theorem init_device_emb_validates:
  "((\<exists>m. init_device_emb a = Inl (AssertionError m)) \<longleftrightarrow>
       length (filter (\<lambda>b. b) [only_cpu a, only_gpu a, mix a]) \<noteq> 1
       \<or> length (filter (\<lambda>b. b) [sgd a, adam a, avg_sgd a]) \<noteq> 1
       \<or> num_procs a < 1)
   \<and> (init_device_emb a = Inr () \<or> (\<exists>m. init_device_emb a = Inl (AssertionError m)))
   \<and> (\<forall>e. init_device_emb a = Inl e \<longrightarrow>
         fast_train_mp en a ds = Inl e
         \<and> fast_train en a ds =
             Some ([], Some (if batch_size a = 0 then ZeroDivisionError ''division by zero''
                             else e)))"
  using init_device_emb_fails_iff [of a] init_device_emb_cases [of a]
    fast_train_init_fails [of a _ en ds] fast_train_mp_init_fails [of a _ en ds]
  by blast

theorem init_device_emb_validates_witness:
  "init_device_emb (defaults\<lparr>only_cpu := True, mix := True, sgd := True\<rparr>) =
     Inl (AssertionError ''Must choose only *one* training mode in [only_cpu, only_gpu, mix]'')
   \<and> fast_train_mp \<lparr>shuffle_walks = (\<lambda>k ws. rev ws), neg_tape = (\<lambda>p i k. k)\<rparr>
       (defaults\<lparr>only_cpu := True, mix := True, sgd := True\<rparr>)
       \<lparr>net_size = 1, walks = [[0]], neg_table = [0]\<rparr>
     = Inl (AssertionError ''Must choose only *one* training mode in [only_cpu, only_gpu, mix]'')
   \<and> fast_train \<lparr>shuffle_walks = (\<lambda>k ws. rev ws), neg_tape = (\<lambda>p i k. k)\<rparr>
       (defaults\<lparr>only_cpu := True, mix := True, sgd := True\<rparr>)
       \<lparr>net_size = 1, walks = [[0]], neg_table = [0]\<rparr>
     = Some ([], Some (AssertionError
         ''Must choose only *one* training mode in [only_cpu, only_gpu, mix]''))"
proof -
  have f: "init_device_emb (defaults\<lparr>only_cpu := True, mix := True, sgd := True\<rparr>) =
     Inl (AssertionError ''Must choose only *one* training mode in [only_cpu, only_gpu, mix]'')"
    by (simp add: init_device_emb_def defaults_def)
  have b: "batch_size (defaults\<lparr>only_cpu := True, mix := True, sgd := True\<rparr>) \<noteq> 0"
    by (simp add: defaults_def)
  show ?thesis
    using f b init_device_emb_validates
      [of "defaults\<lparr>only_cpu := True, mix := True, sgd := True\<rparr>"
          "\<lparr>shuffle_walks = (\<lambda>k ws. rev ws), neg_tape = (\<lambda>p i k. k)\<rparr>"
          "\<lparr>net_size = 1, walks = [[0]], neg_table = [0]\<rparr>"]
    by simp
qed

subsection \<open>The loop over the batches\<close>

lemma decayed_lr_schedule:
  "max_i \<noteq> 0 \<Longrightarrow> decayed_lr lr0 max_i i = Inr (lr_schedule lr0 max_i i)"
  by (simp add: decayed_lr_def lr_schedule_def Let_def)

lemma decayed_lr_zero:
  "decayed_lr lr0 0 i = Inl (ZeroDivisionError ''float division by zero'')"
  by (simp add: decayed_lr_def)


lemma loop_body_Do:
  assumes "loop_body tape a table ws nb max_i i = Do ev fin"
  shows "max_i \<noteq> 0 \<and> nb \<noteq> 0 \<and> fin = after_step a nb (i mod nb) i
    \<and> (\<exists>b n. ev = Learn b (lr_schedule (lr a) max_i i) n
          \<and> b = py_slice ws (i mod nb * batch_size a) ((1 + i mod nb) * batch_size a)
          \<and> b \<noteq> []
          \<and> (if fast_neg a then n = None
              else \<exists>ns. n = Some ns
                \<and> np_random_choice (tape i) table (int (length b) * num_pos a * negative a) = Inr ns))"
proof (cases "max_i = 0")
  case True
  then show ?thesis using assms by (simp add: loop_body_def decayed_lr_zero)
next
  case False
  then show ?thesis using assms
    by (auto simp: loop_body_def decayed_lr_schedule Let_def split: if_splits sum.splits)
qed

lemma batch_loop_events:
  assumes "batch_loop tape a table ws nb max_i i = Some (evs, i', st)"
  shows "i' = i + int (length evs)
    \<and> (\<forall>k<length evs. \<exists>fin. loop_body tape a table ws nb max_i (i + int k) = Do (evs ! k) fin)"
  using assms
proof (induction evs arbitrary: i)
  case Nil
  then show ?case
    by (subst (asm) batch_loop.simps) (auto split: step.splits control.splits if_splits Option.bind_splits)
next
  case (Cons ev evs)
  show ?case
  proof (cases "loop_body tape a table ws nb max_i i")
    case (Stop x)
    then show ?thesis using Cons.prems by (subst (asm) batch_loop.simps) simp
  next
    case (Do ev' fin)
    show ?thesis
    proof (cases fin)
      case Break
      then show ?thesis using Cons.prems Do
        by (subst (asm) batch_loop.simps) auto
    next
      case (Raise e)
      then show ?thesis using Cons.prems Do
        by (subst (asm) batch_loop.simps) auto
    next
      case Continue
      have unf: "Option.bind (batch_loop tape a table ws nb max_i (i + 1))
                 (\<lambda>(evs, r). Some (ev' # evs, r)) = Some (ev # evs, i', st)"
        using Cons.prems Do Continue by (subst (asm) batch_loop.simps) simp
      then have rec: "batch_loop tape a table ws nb max_i (i + 1) = Some (evs, i', st)" and ev: "ev' = ev"
        by (auto split: Option.bind_splits)
      from Cons.IH[OF rec] have i': "i' = i + 1 + int (length evs)"
        and steps: "\<And>k. k < length evs \<Longrightarrow> \<exists>fin. loop_body tape a table ws nb max_i (i + 1 + int k) = Do (evs ! k) fin"
        by auto
      have "\<exists>fin. loop_body tape a table ws nb max_i (i + int k) = Do ((ev # evs) ! k) fin"
        if "k < length (ev # evs)" for k
      proof (cases k)
        case 0
        then show ?thesis using Do ev by auto
      next
        case (Suc j)
        then show ?thesis using steps[of j] that by (simp add: algebra_simps)
      qed
      then show ?thesis using i' by simp
    qed
  qed
qed

lemma batch_loop_terminates:
  assumes "0 < nb"
  shows "\<exists>evs i' st. batch_loop tape a table ws nb max_i i = Some (evs, i', st)
     \<and> int (length evs) \<le> nb - i mod nb"
proof (induction "nat (nb - 1 - i mod nb)" arbitrary: i rule: less_induct)
  case less
  have range: "0 \<le> i mod nb" "i mod nb < nb" using assms by simp_all
  show ?case
  proof (cases "loop_body tape a table ws nb max_i i")
    case (Stop x)
    then show ?thesis using range by (subst batch_loop.simps) simp
  next
    case (Do ev fin)
    then have fin: "fin = after_step a nb (i mod nb) i" using loop_body_Do by blast
    show ?thesis
    proof (cases fin)
      case Break
      then show ?thesis using Do range by (subst batch_loop.simps) simp
    next
      case (Raise e)
      then show ?thesis using Do range by (subst batch_loop.simps) simp
    next
      case Continue
      then have "i mod nb \<noteq> nb - 1" using fin by (auto simp: after_step_def Let_def split: if_splits)
      then have lt: "i mod nb < nb - 1" using range by linarith
      have "(i + 1) mod nb = (i mod nb + 1) mod nb" by (simp add: mod_add_left_eq)
      also have "\<dots> = i mod nb + 1" using range lt by (intro mod_pos_pos_trivial) simp_all
      finally have next_mod: "(i + 1) mod nb = i mod nb + 1" .
      have "nat (nb - 1 - (i + 1) mod nb) < nat (nb - 1 - i mod nb)"
        using lt next_mod by simp
      from less[OF this] obtain evs i' st where
        rec: "batch_loop tape a table ws nb max_i (i + 1) = Some (evs, i', st)"
        and len: "int (length evs) \<le> nb - (i + 1) mod nb" by blast
      have "batch_loop tape a table ws nb max_i i = Some (ev # evs, i', st)"
        using Do Continue rec by (subst batch_loop.simps) simp
      then show ?thesis using len next_mod by auto
    qed
  qed
qed

lemma batch_loop_zero:
  "batch_loop tape a table ws 0 max_i i = Some ([], i,
     Some (ZeroDivisionError (if max_i = 0 then ''float division by zero''
       else ''integer division or modulo by zero'')))"
  by (subst batch_loop.simps) (simp add: loop_body_def decayed_lr_def Let_def)

lemma rates_append: "rates (xs @ ys) = rates xs @ rates ys"
  by (induction xs rule: rates.induct) simp_all

lemma map_upt_shift:
  "map f [0..<Suc n] = f 0 # map (\<lambda>k. f (Suc k)) [0..<n]"
  by (simp add: upt_conv_Cons map_Suc_upt [symmetric] del: upt_Suc)

lemma steps_rates:
  assumes "\<And>k. k < length evs \<Longrightarrow>
      \<exists>fin. loop_body tape a table ws nb max_i (i + int k) = Do (evs ! k) fin"
  shows "rates evs = map (\<lambda>k. lr_schedule (lr a) max_i (i + int k)) [0..<length evs]"
  using assms
proof (induction evs arbitrary: i)
  case Nil
  then show ?case by simp
next
  case (Cons ev evs)
  from Cons.prems[of 0] obtain fin where "loop_body tape a table ws nb max_i i = Do ev fin"
    by auto
  from loop_body_Do[OF this] obtain b n where ev: "ev = Learn b (lr_schedule (lr a) max_i i) n"
    by blast
  have "\<exists>fin. loop_body tape a table ws nb max_i (i + 1 + int k) = Do (evs ! k) fin"
    if "k < length evs" for k
    using Cons.prems[of "Suc k"] that by (simp add: algebra_simps)
  from Cons.IH[OF this]
  have "rates evs = map (\<lambda>k. lr_schedule (lr a) max_i (i + 1 + int k)) [0..<length evs]" .
  moreover have "map (\<lambda>k. lr_schedule (lr a) max_i (i + int k)) [0..<length (ev # evs)]
      = lr_schedule (lr a) max_i i # map (\<lambda>k. lr_schedule (lr a) max_i (i + 1 + int k)) [0..<length evs]"
    unfolding length_Cons map_upt_shift by (simp add: algebra_simps)
  ultimately show ?case using ev by simp
qed

lemma lr_schedule_Fin:
  "lr_schedule (Fin r) max_i i =
     Fin (max (1 / 100000) (r * of_int (max_i - i) / of_int max_i))"
  by (simp add: lr_schedule_def Let_def max_def)

lemma lr_schedule_PInf:
  "0 < max_i \<Longrightarrow> i < max_i \<Longrightarrow> lr_schedule PInf max_i i = PInf"
  by (simp add: lr_schedule_def Let_def)

lemma lr_schedule_NInf:
  "0 < max_i \<Longrightarrow> i < max_i \<Longrightarrow> lr_schedule NInf max_i i = Fin (1 / 100000)"
  by (simp add: lr_schedule_def Let_def)

lemma lr_schedule_floor:
  assumes "0 < max_i" "i < max_i" "lr0 \<noteq> NaN"
  shows "fle (Fin (1 / 100000)) (lr_schedule lr0 max_i i)"
proof (cases lr0)
  case (Fin r)
  then show ?thesis by (simp add: lr_schedule_Fin)
next
  case PInf
  then show ?thesis using assms by (simp add: lr_schedule_PInf)
next
  case NInf
  then show ?thesis using assms by (simp add: lr_schedule_NInf)
next
  case NaN
  then show ?thesis using assms by simp
qed

lemma schedule_antimono_rat:
  fixes r :: rat
  assumes "0 < max_i" "i \<le> j" "j \<le> max_i"
  shows "max (1 / 100000) (r * of_int (max_i - j) / of_int max_i)
     \<le> max (1 / 100000) (r * of_int (max_i - i) / of_int max_i)"
proof (cases "0 \<le> r")
  case True
  have "r * of_int (max_i - j) \<le> r * of_int (max_i - i)"
    using True assms(2) by (intro mult_left_mono) simp_all
  then have "r * of_int (max_i - j) / of_int max_i \<le> r * of_int (max_i - i) / of_int max_i"
    using assms(1) by (simp add: divide_right_mono)
  then show ?thesis by (rule max.mono[OF order_refl])
next
  case False
  then have neg: "r < 0" by simp
  have "r * of_int (max_i - i) / of_int max_i \<le> 0"
    using neg assms by (simp add: divide_le_0_iff mult_le_0_iff)
  moreover have "r * of_int (max_i - j) / of_int max_i \<le> 0"
    using neg assms by (simp add: divide_le_0_iff mult_le_0_iff)
  ultimately show ?thesis by simp
qed

lemma lr_schedule_antimono:
  assumes "0 < max_i" "i \<le> j" "j < max_i" "lr0 \<noteq> NaN"
  shows "fle (lr_schedule lr0 max_i j) (lr_schedule lr0 max_i i)"
proof (cases lr0)
  case (Fin r)
  have "j \<le> max_i" using assms(3) by simp
  from schedule_antimono_rat[OF assms(1,2) this, of r] show ?thesis
    unfolding Fin lr_schedule_Fin by simp
next
  case PInf
  have "i < max_i" using assms(2,3) by simp
  then show ?thesis using PInf assms by (simp add: lr_schedule_PInf)
next
  case NInf
  have "i < max_i" using assms(2,3) by simp
  then show ?thesis using NInf assms by (simp add: lr_schedule_NInf)
next
  case NaN
  then show ?thesis using assms by simp
qed

lemma rates_decrease:
  assumes "0 < max_i" "i + int m \<le> max_i" "lr0 \<noteq> NaN"
  shows "sorted_wrt (\<lambda>x y. fle y x) (map (\<lambda>k. lr_schedule lr0 max_i (i + int k)) [0..<m])"
  unfolding sorted_wrt_iff_nth_less
proof (intro allI impI)
  fix p q assume "p < q" "q < length (map (\<lambda>k. lr_schedule lr0 max_i (i + int k)) [0..<m])"
  then have q: "q < m" and p: "p < m" by simp_all
  have "fle (lr_schedule lr0 max_i (i + int q)) (lr_schedule lr0 max_i (i + int p))"
  proof (rule lr_schedule_antimono)
    show "0 < max_i" by (rule assms(1))
    show "i + int p \<le> i + int q" using \<open>p < q\<close> by simp
    show "i + int q < max_i" using assms(2) q by linarith
    show "lr0 \<noteq> NaN" by (rule assms(3))
  qed
  then show "fle (map (\<lambda>k. lr_schedule lr0 max_i (i + int k)) [0..<m] ! q)
      (map (\<lambda>k. lr_schedule lr0 max_i (i + int k)) [0..<m] ! p)"
    using p q by simp
qed



lemma ceil_batches_nonneg:
  assumes "0 < bs" "0 \<le> l"
  shows "0 \<le> \<lceil>(of_int l :: rat) / of_int bs\<rceil>"
proof -
  have "(0::rat) \<le> of_int l / of_int bs" using assms by simp
  then have "- 1 < (of_int l :: rat) / of_int bs" by linarith
  then show ?thesis by (simp only: zero_le_ceiling)
qed

lemma num_batches_eq:
  "bs \<noteq> 0 \<Longrightarrow> num_batches n bs = Inr \<lceil>(of_int n :: rat) / of_int bs\<rceil>"
  by (simp add: num_batches_def true_div_def)

lemma num_batches_zero:
  "num_batches n 0 = Inl (ZeroDivisionError ''division by zero'')"
  by (simp add: num_batches_def true_div_def)

lemma py_slice_batch:
  assumes "0 \<le> k" "0 < bs"
  shows "py_slice ws (k * bs) ((1 + k) * bs) = batch_of ws bs (nat k)"
proof -
  have "\<not> k * bs < 0" using assms by (simp add: mult_less_0_iff)
  moreover have "nat (k * bs) = nat k * nat bs" using assms by (simp add: nat_mult_distrib)
  ultimately have lo: "slice_bound (length ws) (k * bs) = min (length ws) (nat k * nat bs)"
    by (simp only: slice_bound_def if_False)
  have "nat ((1 + k) * bs) = nat k * nat bs + nat bs"
    using assms by (simp add: nat_mult_distrib nat_add_distrib algebra_simps)
  moreover have "\<not> (1 + k) * bs < 0" using assms by (simp add: mult_less_0_iff)
  ultimately have hi: "slice_bound (length ws) ((1 + k) * bs) = min (length ws) (nat k * nat bs + nat bs)"
    by (simp only: slice_bound_def if_False)
  have tk: "take (min (length xs) m) xs = take m xs" for xs :: "walk list" and m
    by (cases "m \<le> length xs") (simp_all add: min_def)
  show ?thesis
  proof (cases "nat k * nat bs \<le> length ws")
    case True
    have "min n (p + m) - min n p = min (n - p) m" if "p \<le> n" for n p m :: nat
      using that by arith
    from this[OF True]
    have "min (length ws) (nat k * nat bs + nat bs) - min (length ws) (nat k * nat bs)
        = min (length (drop (nat k * nat bs) ws)) (nat bs)"
      by simp
    then show ?thesis
      unfolding py_slice_def Let_def lo hi batch_of_def using True
      by (simp only: tk min_absorb2)
  next
    case False
    then show ?thesis
      unfolding py_slice_def Let_def lo hi batch_of_def by simp
  qed
qed






lemma local_horizon_num_batches:
  "batch_size a \<noteq> 0 \<Longrightarrow> num_batches (int (length ws)) (batch_size a) = Inr nb
     \<Longrightarrow> iterations a * nb = local_horizon a ws"
  by (simp add: num_batches_eq local_horizon_def)

lemma fast_train_sp_unfold:
  assumes "batch_size a \<noteq> 0"
  shows "fast_train_sp en a ds ws p =
     map_option (\<lambda>(evs, i, st). (evs, st))
       (batch_loop (neg_tape en p) a (neg_table ds) ws
          \<lceil>(of_int (int (length ws)) :: rat) / of_int (batch_size a)\<rceil> (local_horizon a ws) 0)"
  using assms by (simp add: fast_train_sp_def num_batches_eq local_horizon_def Let_def)


lemma fast_train_sp_general:
  assumes "0 < batch_size a"
  shows "\<exists>evs st. fast_train_sp en a ds ws p = Some (evs, st)
     \<and> int (length evs) \<le> \<lceil>(of_int (int (length ws)) :: rat) / of_int (batch_size a)\<rceil>
     \<and> (\<forall>k<length evs. \<exists>fin.
           loop_body (neg_tape en p) a (neg_table ds) ws
             \<lceil>(of_int (int (length ws)) :: rat) / of_int (batch_size a)\<rceil>
             (local_horizon a ws) (int k) = Do (evs ! k) fin)"
proof -
  let ?nb = "\<lceil>(of_int (int (length ws)) :: rat) / of_int (batch_size a)\<rceil>"
  have "0 \<le> ?nb" using assms by (intro ceil_batches_nonneg) simp_all
  then consider "?nb = 0" | "0 < ?nb" by linarith
  then show ?thesis
  proof cases
    case 1
    then show ?thesis using assms by (simp add: fast_train_sp_unfold batch_loop_zero)
  next
    case 2
    from batch_loop_terminates[OF 2, of "neg_tape en p" a "neg_table ds" ws "local_horizon a ws" 0]
    obtain evs i' st where
      r: "batch_loop (neg_tape en p) a (neg_table ds) ws ?nb (local_horizon a ws) 0 = Some (evs, i', st)"
      and len: "int (length evs) \<le> ?nb" by auto
    from batch_loop_events[OF r] have
      "\<forall>k<length evs. \<exists>fin. loop_body (neg_tape en p) a (neg_table ds) ws ?nb
             (local_horizon a ws) (int k) = Do (evs ! k) fin" by simp
    then show ?thesis using r len assms by (simp add: fast_train_sp_unfold)
  qed
qed

subsection \<open>The loop over the iterations\<close>

lemma map_upt_add:
  "map f [0..<m + n] = map f [0..<m] @ map (\<lambda>k. f (m + k)) [0..<n]"
  by (induction n) simp_all

lemma train_epochs_zero:
  "\<exists>evs st. train_epochs en a table 0 max_i n e i ws = Some (evs, st) \<and> rates evs = []
     \<and> (\<forall>b r ng. Learn b r ng \<notin> set evs)"
  by (cases n) (simp_all add: batch_loop_zero Let_def)

lemma train_epochs_Suc_ok:
  assumes "batch_loop (neg_tape en 0) a table (shuffle_walks en e ws) nb max_i i = Some (evs, i', None)"
    "train_epochs en a table nb max_i n (Suc e) i' (shuffle_walks en e ws) = Some (evs', st)"
  shows "train_epochs en a table nb max_i (Suc n) e i ws =
     Some (Shuffle (shuffle_walks en e ws) # evs @ evs', st)"
  by (subst train_epochs.simps(2)) (simp only: Let_def assms option.case prod.case)

lemma train_epochs_Suc_err:
  assumes "batch_loop (neg_tape en 0) a table (shuffle_walks en e ws) nb max_i i = Some (evs, i', Some err)"
  shows "train_epochs en a table nb max_i (Suc n) e i ws =
     Some (Shuffle (shuffle_walks en e ws) # evs, Some err)"
  by (subst train_epochs.simps(2)) (simp only: Let_def assms option.case prod.case)

lemma train_epochs_general:
  assumes "0 < nb"
  shows "\<exists>evs st. train_epochs en a table nb max_i n e i ws = Some (evs, st)
     \<and> rates evs = map (\<lambda>k. lr_schedule (lr a) max_i (i + int k)) [0..<length (rates evs)]
     \<and> (\<forall>c. i \<le> nb * c \<longrightarrow> i + int (length (rates evs)) \<le> nb * (c + int n))
     \<and> (\<forall>b r ng. Learn b r ng \<in> set evs \<longrightarrow>
           (\<exists>ws' j fin. loop_body (neg_tape en 0) a table ws' nb max_i j = Do (Learn b r ng) fin))"
proof (induction n arbitrary: e i ws)
  case 0
  then show ?case by simp
next
  case (Suc n)
  let ?ws = "shuffle_walks en e ws"
  from batch_loop_terminates[OF assms, of "neg_tape en 0" a table ?ws max_i i]
  obtain evs1 i' st1 where
    r1: "batch_loop (neg_tape en 0) a table ?ws nb max_i i = Some (evs1, i', st1)"
    and len1: "int (length evs1) \<le> nb - i mod nb" by blast
  from batch_loop_events[OF r1] have i': "i' = i + int (length evs1)"
    and steps: "\<And>k. k < length evs1 \<Longrightarrow>
       \<exists>fin. loop_body (neg_tape en 0) a table ?ws nb max_i (i + int k) = Do (evs1 ! k) fin"
    by auto
  have rates1: "rates evs1 = map (\<lambda>k. lr_schedule (lr a) max_i (i + int k)) [0..<length evs1]"
    using steps by (rule steps_rates)
  then have lr1: "length (rates evs1) = length evs1" by simp
  have origin1: "\<exists>ws' j fin. loop_body (neg_tape en 0) a table ws' nb max_i j = Do ev fin"
    if "ev \<in> set evs1" for ev
  proof -
    from that obtain k where "k < length evs1" "evs1 ! k = ev" by (auto simp: in_set_conv_nth)
    then show ?thesis using steps[of k] by blast
  qed
  have bound1: "i' \<le> nb * (c + 1)" if "i \<le> nb * c" for c
  proof -
    have "i div nb \<le> (nb * c) div nb" using that by (rule zdiv_mono1) (rule assms)
    then have "i div nb \<le> c" using assms by simp
    then have "nb * (i div nb) \<le> nb * c" using assms by (simp add: mult_left_mono)
    moreover have "nb * (c + 1) = nb * c + nb" by (simp add: algebra_simps)
    moreover have "i = nb * (i div nb) + i mod nb" by simp
    ultimately show ?thesis using len1 i' by linarith
  qed
  show ?case
  proof (cases st1)
    case (Some err)
    have "i + int (length evs1) \<le> nb * (c + int (Suc n))" if "i \<le> nb * c" for c
    proof -
      have "nb * (c + 1) \<le> nb * (c + int (Suc n))" using assms by (intro mult_left_mono) simp_all
      then show ?thesis using bound1[OF that] i' by linarith
    qed
    then have q2: "\<forall>c. i \<le> nb * c \<longrightarrow>
        i + int (length (rates (Shuffle ?ws # evs1))) \<le> nb * (c + int (Suc n))"
      using lr1 by simp
    have q0: "train_epochs en a table nb max_i (Suc n) e i ws = Some (Shuffle ?ws # evs1, Some err)"
      using r1 unfolding Some by (rule train_epochs_Suc_err)
    have q1: "rates (Shuffle ?ws # evs1) =
        map (\<lambda>k. lr_schedule (lr a) max_i (i + int k)) [0..<length (rates (Shuffle ?ws # evs1))]"
      using rates1 lr1 by simp
    have q3: "\<forall>b r ng. Learn b r ng \<in> set (Shuffle ?ws # evs1) \<longrightarrow>
        (\<exists>ws' j fin. loop_body (neg_tape en 0) a table ws' nb max_i j = Do (Learn b r ng) fin)"
      using origin1 by simp
    show ?thesis
      by (rule exI[of _ "Shuffle ?ws # evs1"], rule exI[of _ "Some err"]) (intro conjI q0 q1 q2 q3)
  next
    case None
    from Suc.IH[of "Suc e" i' ?ws] obtain evs2 st2 where
      r2: "train_epochs en a table nb max_i n (Suc e) i' ?ws = Some (evs2, st2)"
      and rates2: "rates evs2 = map (\<lambda>k. lr_schedule (lr a) max_i (i' + int k)) [0..<length (rates evs2)]"
      and bound2: "\<And>c. i' \<le> nb * c \<Longrightarrow> i' + int (length (rates evs2)) \<le> nb * (c + int n)"
      and origin2: "\<And>b r ng. Learn b r ng \<in> set evs2 \<Longrightarrow>
           \<exists>ws' j fin. loop_body (neg_tape en 0) a table ws' nb max_i j = Do (Learn b r ng) fin"
      by blast
    let ?evs = "Shuffle ?ws # evs1 @ evs2"
    have res: "train_epochs en a table nb max_i (Suc n) e i ws = Some (?evs, st2)"
      using r1 r2 unfolding None by (rule train_epochs_Suc_ok)
    have rt: "rates ?evs = rates evs1 @ rates evs2" by (simp add: rates_append)
    define m2 where "m2 = length (rates evs2)"
    have rates2': "rates evs2 = map (\<lambda>k. lr_schedule (lr a) max_i (i' + int k)) [0..<m2]"
      using rates2 unfolding m2_def .
    have "map (\<lambda>k. lr_schedule (lr a) max_i (i + int k)) [0..<length evs1 + m2]
        = rates evs1 @ rates evs2"
      unfolding map_upt_add rates1 rates2' i' by (simp add: algebra_simps)
    then have "map (\<lambda>k. lr_schedule (lr a) max_i (i + int k)) [0..<length evs1 + length (rates evs2)]
        = rates evs1 @ rates evs2"
      unfolding m2_def .
    then have p1: "rates ?evs = map (\<lambda>k. lr_schedule (lr a) max_i (i + int k)) [0..<length (rates ?evs)]"
      using rt lr1 by simp
    have p2: "\<forall>c. i \<le> nb * c \<longrightarrow> i + int (length (rates ?evs)) \<le> nb * (c + int (Suc n))"
    proof (intro allI impI)
      fix c assume "i \<le> nb * c"
      from bound2[OF bound1[OF this]]
      have "i' + int (length (rates evs2)) \<le> nb * (c + 1 + int n)" .
      moreover have "c + 1 + int n = c + int (Suc n)" by simp
      moreover have "int (length (rates ?evs)) = int (length evs1) + int (length (rates evs2))"
        using rt lr1 by simp
      ultimately show "i + int (length (rates ?evs)) \<le> nb * (c + int (Suc n))"
        using i' by simp
    qed
    have p3: "\<forall>b r ng. Learn b r ng \<in> set ?evs \<longrightarrow>
        (\<exists>ws' j fin. loop_body (neg_tape en 0) a table ws' nb max_i j = Do (Learn b r ng) fin)"
    proof (intro allI impI)
      fix b r ng assume "Learn b r ng \<in> set ?evs"
      then consider "Learn b r ng \<in> set evs1" | "Learn b r ng \<in> set evs2" by auto
      then show "\<exists>ws' j fin. loop_body (neg_tape en 0) a table ws' nb max_i j = Do (Learn b r ng) fin"
        using origin1 origin2 by cases blast+
    qed
    show ?thesis
      by (rule exI[of _ ?evs], rule exI[of _ st2]) (intro conjI res p1 p2 p3)
  qed
qed



lemma train_epochs_Suc_None:
  assumes "batch_loop (neg_tape en 0) a table (shuffle_walks en e ws) nb max_i i = None"
  shows "train_epochs en a table nb max_i (Suc n) e i ws = None"
  by (subst train_epochs.simps(2)) (simp only: Let_def assms option.case)

lemma train_epochs_Suc_None2:
  assumes "batch_loop (neg_tape en 0) a table (shuffle_walks en e ws) nb max_i i = Some (evs, i', None)"
    "train_epochs en a table nb max_i n (Suc e) i' (shuffle_walks en e ws) = None"
  shows "train_epochs en a table nb max_i (Suc n) e i ws = None"
  by (subst train_epochs.simps(2)) (simp only: Let_def assms option.case prod.case)

lemma train_epochs_origin:
  assumes "train_epochs en a table nb max_i n e i ws = Some (evs, st)" "Learn b r ng \<in> set evs"
  shows "\<exists>ws' j fin. loop_body (neg_tape en 0) a table ws' nb max_i j = Do (Learn b r ng) fin"
  using assms
proof (induction n arbitrary: e i ws evs st)
  case 0
  then show ?case by simp
next
  case (Suc n)
  let ?ws = "shuffle_walks en e ws"
  show ?case
  proof (cases "batch_loop (neg_tape en 0) a table ?ws nb max_i i")
    case None
    from train_epochs_Suc_None[OF None, of n] Suc.prems(1) show ?thesis by (simp only:) simp
  next
    case (Some res)
    obtain evs1 i' st1 where res: "res = (evs1, i', st1)" by (cases res)
    have r1: "batch_loop (neg_tape en 0) a table ?ws nb max_i i = Some (evs1, i', st1)"
      using Some res by simp
    have origin1: "\<exists>ws' j fin. loop_body (neg_tape en 0) a table ws' nb max_i j = Do ev fin"
      if "ev \<in> set evs1" for ev
    proof -
      from that obtain k where "k < length evs1" "evs1 ! k = ev" by (auto simp: in_set_conv_nth)
      then show ?thesis using batch_loop_events[OF r1] by blast
    qed
    show ?thesis
    proof (cases st1)
      case (Some err)
      from train_epochs_Suc_err[OF r1[unfolded Some], of n] Suc.prems(1)
      have "evs = Shuffle ?ws # evs1" by (simp only:) simp
      then show ?thesis using Suc.prems(2) origin1 by auto
    next
      case None
      show ?thesis
      proof (cases "train_epochs en a table nb max_i n (Suc e) i' ?ws")
        case None2: None
        from train_epochs_Suc_None2[OF r1[unfolded None] None2] Suc.prems(1)
        show ?thesis by (simp only:) simp
      next
        case (Some res2)
        obtain evs2 st2 where res2: "res2 = (evs2, st2)" by (cases res2)
        have r2: "train_epochs en a table nb max_i n (Suc e) i' ?ws = Some (evs2, st2)"
          using Some res2 by simp
        from train_epochs_Suc_ok[OF r1[unfolded None] r2] Suc.prems(1)
        have "evs = Shuffle ?ws # evs1 @ evs2" by (simp only:) simp
        then consider "Learn b r ng \<in> set evs1" | "Learn b r ng \<in> set evs2"
          using Suc.prems(2) by auto
        then show ?thesis using origin1 Suc.IH[OF r2] by cases blast+
      qed
    qed
  qed
qed

lemma fast_train_unfold:
  assumes "batch_size a \<noteq> 0" "init_device_emb a = Inr ()"
  shows "fast_train en a ds =
     train_epochs en a (neg_table ds) (epoch_batches a ds) (iterations a * epoch_batches a ds)
       (nat (iterations a)) 0 0 (walks ds)"
  using assms by (simp add: fast_train_def num_batches_eq epoch_batches_def Let_def)

lemma fast_train_origin:
  assumes "fast_train en a ds = Some (evs, st)" "Learn b r ng \<in> set evs"
  shows "\<exists>ws' j fin. loop_body (neg_tape en 0) a (neg_table ds) ws' (epoch_batches a ds)
     (iterations a * epoch_batches a ds) j = Do (Learn b r ng) fin"
proof (cases "batch_size a = 0")
  case True
  then show ?thesis using assms by (simp add: fast_train_def num_batches_zero)
next
  case False
  show ?thesis
  proof (cases "init_device_emb a")
    case (Inl e)
    then show ?thesis using assms fast_train_init_fails[OF Inl, of en ds] by simp
  next
    case (Inr u)
    then have "init_device_emb a = Inr ()" by simp
    from fast_train_unfold[OF False this, of en ds] assms(1)
    have "train_epochs en a (neg_table ds) (epoch_batches a ds) (iterations a * epoch_batches a ds)
       (nat (iterations a)) 0 0 (walks ds) = Some (evs, st)" by simp
    then show ?thesis using assms(2) by (rule train_epochs_origin)
  qed
qed

lemma fast_train_sp_origin:
  assumes "fast_train_sp en a ds ws p = Some (evs, st)" "Learn b r ng \<in> set evs"
  shows "\<exists>j fin. loop_body (neg_tape en p) a (neg_table ds) ws (shard_batches a ws)
     (local_horizon a ws) j = Do (Learn b r ng) fin"
proof (cases "batch_size a = 0")
  case True
  then show ?thesis using assms by (simp add: fast_train_sp_def num_batches_zero)
next
  case False
  from assms(1) obtain i' where
    r: "batch_loop (neg_tape en p) a (neg_table ds) ws (shard_batches a ws) (local_horizon a ws) 0
        = Some (evs, i', st)"
    unfolding fast_train_sp_unfold[OF False] shard_batches_def by auto
  from assms(2) obtain k where k: "k < length evs" "evs ! k = Learn b r ng"
    by (auto simp: in_set_conv_nth)
  from batch_loop_events[OF r] have "\<forall>k<length evs. \<exists>fin.
      loop_body (neg_tape en p) a (neg_table ds) ws (shard_batches a ws) (local_horizon a ws)
        (0 + int k) = Do (evs ! k) fin" by (rule conjunct2)
  with k obtain fin where "loop_body (neg_tape en p) a (neg_table ds) ws (shard_batches a ws)
      (local_horizon a ws) (0 + int k) = Do (Learn b r ng) fin" by auto
  then show ?thesis by (intro exI)
qed

lemma fast_train_general:
  assumes "0 < batch_size a" "0 \<le> num_walks a"
  shows "\<exists>evs st. fast_train en a ds = Some (evs, st)
     \<and> rates evs = map (\<lambda>k. lr_schedule (lr a) (iterations a * epoch_batches a ds) (int k))
                      [0..<length (rates evs)]
     \<and> int (length (rates evs)) \<le> epoch_batches a ds * int (nat (iterations a))"
proof -
  let ?nb = "epoch_batches a ds"
  have "0 \<le> int (net_size ds) * num_walks a" using assms(2) by simp
  then have nb: "0 \<le> ?nb" unfolding epoch_batches_def using assms(1) by (intro ceil_batches_nonneg)
  then have b0: "0 \<le> ?nb * int (nat (iterations a))" by simp
  have bs: "batch_size a \<noteq> 0" using assms(1) by simp
  show ?thesis
  proof (cases "init_device_emb a")
    case (Inl e)
    show ?thesis using fast_train_init_fails[OF Inl, of en ds] b0 by simp
  next
    case (Inr u)
    then have ok: "init_device_emb a = Inr ()" by simp
    note unf = fast_train_unfold[OF bs ok, of en ds]
    consider "?nb = 0" | "0 < ?nb" using nb by linarith
    then show ?thesis
    proof cases
      case 1
      from train_epochs_zero[of en a "neg_table ds" "iterations a * ?nb" "nat (iterations a)" 0 0 "walks ds"]
      obtain evs st where "train_epochs en a (neg_table ds) 0 (iterations a * ?nb)
          (nat (iterations a)) 0 0 (walks ds) = Some (evs, st)" "rates evs = []" by blast
      then show ?thesis unfolding unf using 1 by simp
    next
      case 2
      from train_epochs_general[OF 2, of en a "neg_table ds" "iterations a * ?nb" "nat (iterations a)" 0 0 "walks ds"]
      obtain evs st where
        r: "train_epochs en a (neg_table ds) ?nb (iterations a * ?nb) (nat (iterations a)) 0 0 (walks ds)
             = Some (evs, st)"
        and rt: "rates evs = map (\<lambda>k. lr_schedule (lr a) (iterations a * ?nb) (0 + int k))
                      [0..<length (rates evs)]"
        and bd: "\<And>c. 0 \<le> ?nb * c \<Longrightarrow> 0 + int (length (rates evs)) \<le> ?nb * (c + int (nat (iterations a)))"
        by blast
      have "int (length (rates evs)) \<le> ?nb * int (nat (iterations a))" using bd[of 0] by simp
      moreover have "rates evs = map (\<lambda>k. lr_schedule (lr a) (iterations a * ?nb) (int k))
                      [0..<length (rates evs)]" using rt by (simp only: add_0)
      ultimately show ?thesis unfolding unf using r by blast
    qed
  qed
qed



lemma loop_body_batch:
  assumes "loop_body tape a table ws nb max_i i = Do (Learn b r ng) fin"
    "0 \<le> nb" "0 < batch_size a"
  shows "b = batch_of ws (batch_size a) (nat (i mod nb)) \<and> int (length b) \<le> batch_size a"
proof -
  from loop_body_Do[OF assms(1)] have nz: "nb \<noteq> 0"
    and b: "b = py_slice ws (i mod nb * batch_size a) ((1 + i mod nb) * batch_size a)"
    by auto
  have "0 \<le> i mod nb" using nz assms(2) by simp
  then have "b = batch_of ws (batch_size a) (nat (i mod nb))"
    unfolding b using assms(3) by (rule py_slice_batch)
  moreover have "length (batch_of ws (batch_size a) (nat (i mod nb))) \<le> nat (batch_size a)"
    by (simp add: batch_of_def)
  then have "int (length (batch_of ws (batch_size a) (nat (i mod nb)))) \<le> int (nat (batch_size a))"
    by (simp only: of_nat_le_iff)
  moreover have "int (nat (batch_size a)) = batch_size a" using assms(3) by simp
  ultimately show ?thesis by simp
qed

lemma schedule_list:
  assumes "int m \<le> max_i" "lr0 \<noteq> NaN"
  shows "sorted_wrt (\<lambda>x y. fle y x) (map (\<lambda>k. lr_schedule lr0 max_i (int k)) [0..<m])
    \<and> (\<forall>r\<in>set (map (\<lambda>k. lr_schedule lr0 max_i (int k)) [0..<m]). fle (Fin (1 / 100000)) r)"
proof (cases "m = 0")
  case True
  then show ?thesis by simp
next
  case False
  then have pos: "0 < max_i" using assms by linarith
  have "0 + int m \<le> max_i" using assms by simp
  from rates_decrease[OF pos this assms(2)]
  have "sorted_wrt (\<lambda>x y. fle y x) (map (\<lambda>k. lr_schedule lr0 max_i (int k)) [0..<m])"
    by (simp only: add_0)
  moreover have "fle (Fin (1 / 100000)) (lr_schedule lr0 max_i (int k))" if "k < m" for k
    using pos assms that by (intro lr_schedule_floor) simp_all
  ultimately show ?thesis by auto
qed

lemma fast_train_sp_rates:
  assumes "0 < batch_size a"
  shows "\<exists>evs st. fast_train_sp en a ds ws p = Some (evs, st)
     \<and> rates evs = map (\<lambda>k. lr_schedule (lr a) (iterations a * shard_batches a ws) (int k))
                      [0..<length (rates evs)]
     \<and> int (length (rates evs)) \<le> shard_batches a ws
     \<and> (rates evs \<noteq> [] \<longrightarrow> iterations a * shard_batches a ws \<noteq> 0)"
proof -
  from fast_train_sp_general[OF assms, of en ds ws p] obtain evs st where
    r: "fast_train_sp en a ds ws p = Some (evs, st)"
    and len: "int (length evs) \<le> shard_batches a ws"
    and steps: "\<And>k. k < length evs \<Longrightarrow> \<exists>fin.
           loop_body (neg_tape en p) a (neg_table ds) ws (shard_batches a ws)
             (iterations a * shard_batches a ws) (0 + int k) = Do (evs ! k) fin"
    unfolding shard_batches_def local_horizon_def by auto
  from steps_rates[of evs "neg_tape en p" a "neg_table ds" ws "shard_batches a ws"
      "iterations a * shard_batches a ws" 0, OF steps]
  have rt: "rates evs = map (\<lambda>k. lr_schedule (lr a) (iterations a * shard_batches a ws) (int k))
      [0..<length evs]" by (simp only: add_0)
  then have lr: "length (rates evs) = length evs" by simp
  have "iterations a * shard_batches a ws \<noteq> 0" if "rates evs \<noteq> []"
  proof -
    from that lr have "0 < length evs" by auto
    from steps[OF this] loop_body_Do show ?thesis by blast
  qed
  then show ?thesis using r rt lr len by auto
qed

subsection \<open>The learning-rate schedule\<close>

text \<open>
  C1. For every training step \<open>i\<close>, with the horizon \<open>max_steps\<close> being the iteration
  count times the batch count, the learning rate used at that step is
  \<open>initial_lr * (max_steps - i) / max_steps\<close>, and \<open>1e-5\<close> whenever that value is
  below \<open>1e-5\<close>; \<^verbatim>\<open>fast_train\<close> and \<^verbatim>\<open>fast_train_sp\<close> apply no other schedule:
  both return, and the rates of their learning steps, in order, are the scheduled rates
  of the steps \<open>0, 1, 2, \<dots>\<close>. For a finite initial rate the scheduled rate is the
  rational given by that formula.
\<close>

theorem learning_rate_schedule:
  assumes "0 < batch_size a" "0 \<le> num_walks a"
  shows "(\<exists>evs st. fast_train en a ds = Some (evs, st)
      \<and> rates evs = map (\<lambda>i. lr_schedule (lr a) (iterations a * epoch_batches a ds) (int i))
                       [0..<length (rates evs)])
    \<and> (\<exists>evs st. fast_train_sp en a ds ws p = Some (evs, st)
      \<and> rates evs = map (\<lambda>i. lr_schedule (lr a) (iterations a * shard_batches a ws) (int i))
                       [0..<length (rates evs)])
    \<and> (\<forall>lr0 m i. lr_schedule lr0 m i =
          (let v = fdiv_int (fmul_int lr0 (m - i)) m
           in if flt v (1 / 100000) then Fin (1 / 100000) else v))
    \<and> (\<forall>r m i. lr_schedule (Fin r) m i =
          Fin (if r * of_int (m - i) / of_int m < 1 / 100000 then 1 / 100000
               else r * of_int (m - i) / of_int m))"
proof (intro conjI)
  show "\<exists>evs st. fast_train en a ds = Some (evs, st)
      \<and> rates evs = map (\<lambda>i. lr_schedule (lr a) (iterations a * epoch_batches a ds) (int i))
                       [0..<length (rates evs)]"
    using fast_train_general[OF assms, of en ds] by blast
  show "\<exists>evs st. fast_train_sp en a ds ws p = Some (evs, st)
      \<and> rates evs = map (\<lambda>i. lr_schedule (lr a) (iterations a * shard_batches a ws) (int i))
                       [0..<length (rates evs)]"
    using fast_train_sp_rates[OF assms(1), of en ds ws p] by blast
  show "\<forall>lr0 m i. lr_schedule lr0 m i =
          (let v = fdiv_int (fmul_int lr0 (m - i)) m
           in if flt v (1 / 100000) then Fin (1 / 100000) else v)"
    by (simp add: lr_schedule_def)
  show "\<forall>r m i. lr_schedule (Fin r) m i =
          Fin (if r * of_int (m - i) / of_int m < 1 / 100000 then 1 / 100000
               else r * of_int (m - i) / of_int m)"
    by (simp add: lr_schedule_def Let_def)
qed

theorem learning_rate_schedule_witness:
  "0 < batch_size example_args \<and> 0 \<le> num_walks example_args
   \<and> (\<exists>evs st. fast_train example_env example_args example_dataset = Some (evs, st)
      \<and> rates evs = map (\<lambda>i. lr_schedule (lr example_args)
                                (iterations example_args * epoch_batches example_args example_dataset)
                                (int i))
                       [0..<length (rates evs)])
   \<and> (\<exists>evs st. fast_train_sp example_env example_args example_dataset
                   (walks example_dataset) 0 = Some (evs, st)
      \<and> rates evs = map (\<lambda>i. lr_schedule (lr example_args)
                                (iterations example_args
                                   * shard_batches example_args (walks example_dataset))
                                (int i))
                       [0..<length (rates evs)])"
proof -
  have h1: "0 < batch_size example_args" by (simp add: example_args_def)
  have h2: "0 \<le> num_walks example_args" by (simp add: example_args_def)
  show ?thesis
    using h1 h2
      learning_rate_schedule [OF h1 h2, of example_env example_dataset "walks example_dataset" 0]
    by blast
qed

text \<open>
  C5, as amended. With a batch size of at least one, a walk count per node and an
  iteration count that are not negative, and an initial learning rate that is not NaN,
  the learning rates of the successive learning steps of one run of \<^verbatim>\<open>fast_train\<close>,
  and of one run of \<^verbatim>\<open>fast_train_sp\<close>, never increase, and every one of them is at
  least the floor \<open>1e-5\<close>.
\<close>

theorem learning_rate_monotone:
  assumes "0 < batch_size a" "0 \<le> num_walks a" "0 \<le> iterations a" "lr a \<noteq> NaN"
  shows "(\<exists>evs st. fast_train en a ds = Some (evs, st)
      \<and> sorted_wrt (\<lambda>x y. fle y x) (rates evs)
      \<and> (\<forall>r\<in>set (rates evs). fle (Fin (1 / 100000)) r))
    \<and> (\<exists>evs st. fast_train_sp en a ds ws p = Some (evs, st)
      \<and> sorted_wrt (\<lambda>x y. fle y x) (rates evs)
      \<and> (\<forall>r\<in>set (rates evs). fle (Fin (1 / 100000)) r))"
proof (intro conjI)
  from fast_train_general[OF assms(1,2), of en ds] obtain evs st where
    r: "fast_train en a ds = Some (evs, st)"
    and rt: "rates evs = map (\<lambda>k. lr_schedule (lr a) (iterations a * epoch_batches a ds) (int k))
                      [0..<length (rates evs)]"
    and bd: "int (length (rates evs)) \<le> epoch_batches a ds * int (nat (iterations a))"
    by blast
  define m where "m = length (rates evs)"
  have rt': "rates evs = map (\<lambda>k. lr_schedule (lr a) (iterations a * epoch_batches a ds) (int k)) [0..<m]"
    using rt unfolding m_def .
  have "int m \<le> iterations a * epoch_batches a ds"
    using bd assms(3) unfolding m_def by (simp add: mult.commute)
  from schedule_list[OF this assms(4)]
  have "sorted_wrt (\<lambda>x y. fle y x) (rates evs)
      \<and> (\<forall>r\<in>set (rates evs). fle (Fin (1 / 100000)) r)"
    unfolding rt' .
  then show "\<exists>evs st. fast_train en a ds = Some (evs, st)
      \<and> sorted_wrt (\<lambda>x y. fle y x) (rates evs)
      \<and> (\<forall>r\<in>set (rates evs). fle (Fin (1 / 100000)) r)"
    using r by blast
next
  from fast_train_sp_rates[OF assms(1), of en ds ws p] obtain evs st where
    r: "fast_train_sp en a ds ws p = Some (evs, st)"
    and rt: "rates evs = map (\<lambda>k. lr_schedule (lr a) (iterations a * shard_batches a ws) (int k))
                      [0..<length (rates evs)]"
    and bd: "int (length (rates evs)) \<le> shard_batches a ws"
    and nz: "rates evs \<noteq> [] \<Longrightarrow> iterations a * shard_batches a ws \<noteq> 0"
    by blast
  define m where "m = length (rates evs)"
  have rt': "rates evs = map (\<lambda>k. lr_schedule (lr a) (iterations a * shard_batches a ws) (int k)) [0..<m]"
    using rt unfolding m_def .
  have "int (length (rates evs)) \<le> iterations a * shard_batches a ws"
  proof (cases "rates evs = []")
    case True
    have "0 \<le> shard_batches a ws" using bd by linarith
    then show ?thesis using True assms(3) by simp
  next
    case False
    from nz[OF False] assms(3) have "1 \<le> iterations a" by (cases "iterations a = 0") simp_all
    moreover have "0 \<le> shard_batches a ws" using bd by linarith
    ultimately have "1 * shard_batches a ws \<le> iterations a * shard_batches a ws"
      by (intro mult_right_mono)
    then show ?thesis using bd by simp
  qed
  then have "int m \<le> iterations a * shard_batches a ws" unfolding m_def .
  from schedule_list[OF this assms(4)]
  have "sorted_wrt (\<lambda>x y. fle y x) (rates evs)
      \<and> (\<forall>r\<in>set (rates evs). fle (Fin (1 / 100000)) r)"
    unfolding rt' .
  then show "\<exists>evs st. fast_train_sp en a ds ws p = Some (evs, st)
      \<and> sorted_wrt (\<lambda>x y. fle y x) (rates evs)
      \<and> (\<forall>r\<in>set (rates evs). fle (Fin (1 / 100000)) r)"
    using r by blast
qed

theorem learning_rate_monotone_counterexample:
  "fast_train_sp example_env (example_args\<lparr>iterations := - 1\<rparr>) example_dataset
       (walks example_dataset) 0
     = Some ([Learn [[0, 1], [1, 2]] (Fin (1 / 5)) (Some [0, 1, 2, 0]),
              Learn [[2, 0]] (Fin (3 / 10)) (Some [0, 1])], None)
   \<and> \<not> fle (Fin (3 / 10)) (Fin (1 / 5))
   \<and> fast_train_sp example_env (example_args\<lparr>lr := NaN\<rparr>) example_dataset
       (walks example_dataset) 0
     = Some ([Learn [[0, 1], [1, 2]] NaN (Some [0, 1, 2, 0]),
              Learn [[2, 0]] NaN (Some [0, 1])], None)
   \<and> \<not> fle (Fin (1 / 100000)) NaN
   \<and> num_batches 3 (- 2) = Inr (- 1)
   \<and> loop_body (neg_tape example_env 0) (example_args\<lparr>batch_size := - 2\<rparr>)
        (neg_table example_dataset) (walks example_dataset) (- 1) (- 2) 0
     = Do (Learn [[0, 1]] (Fin (1 / 5)) (Some [0, 1])) Continue
   \<and> loop_body (neg_tape example_env 0) (example_args\<lparr>batch_size := - 2\<rparr>)
        (neg_table example_dataset) (walks example_dataset) (- 1) (- 2) 1
     = Do (Learn [[0, 1]] (Fin (3 / 10)) (Some [0, 1])) Continue"
proof -
  have 1: "fast_train_sp example_env (example_args\<lparr>iterations := - 1\<rparr>) example_dataset
       (walks example_dataset) 0
     = Some ([Learn [[0, 1], [1, 2]] (Fin (1 / 5)) (Some [0, 1, 2, 0]),
              Learn [[2, 0]] (Fin (3 / 10)) (Some [0, 1])], None)"
    by code_simp
  have 2: "\<not> fle (Fin (3 / 10)) (Fin (1 / 5))" by simp
  have 3: "fast_train_sp example_env (example_args\<lparr>lr := NaN\<rparr>) example_dataset
       (walks example_dataset) 0
     = Some ([Learn [[0, 1], [1, 2]] NaN (Some [0, 1, 2, 0]),
              Learn [[2, 0]] NaN (Some [0, 1])], None)"
    by code_simp
  have 4: "\<not> fle (Fin (1 / 100000)) NaN" by simp
  have 5: "num_batches 3 (- 2) = Inr (- 1)" by code_simp
  have 6: "loop_body (neg_tape example_env 0) (example_args\<lparr>batch_size := - 2\<rparr>)
        (neg_table example_dataset) (walks example_dataset) (- 1) (- 2) 0
     = Do (Learn [[0, 1]] (Fin (1 / 5)) (Some [0, 1])) Continue"
    by code_simp
  have 7: "loop_body (neg_tape example_env 0) (example_args\<lparr>batch_size := - 2\<rparr>)
        (neg_table example_dataset) (walks example_dataset) (- 1) (- 2) 1
     = Do (Learn [[0, 1]] (Fin (3 / 10)) (Some [0, 1])) Continue"
    by code_simp
  show ?thesis by (intro conjI 1 2 3 4 5 6 7)
qed

theorem learning_rate_monotone_witness:
  "0 < batch_size example_args \<and> 0 \<le> num_walks example_args \<and> 0 \<le> iterations example_args
   \<and> lr example_args \<noteq> NaN
   \<and> (\<exists>evs st. fast_train example_env example_args example_dataset = Some (evs, st)
      \<and> sorted_wrt (\<lambda>x y. fle y x) (rates evs)
      \<and> (\<forall>r\<in>set (rates evs). fle (Fin (1 / 100000)) r))
   \<and> (\<exists>evs st. fast_train_sp example_env example_args example_dataset
                   (walks example_dataset) 0 = Some (evs, st)
      \<and> sorted_wrt (\<lambda>x y. fle y x) (rates evs)
      \<and> (\<forall>r\<in>set (rates evs). fle (Fin (1 / 100000)) r))"
proof -
  have h1: "0 < batch_size example_args" by (simp add: example_args_def)
  have h2: "0 \<le> num_walks example_args" by (simp add: example_args_def)
  have h3: "0 \<le> iterations example_args" by (simp add: example_args_def)
  have h4: "lr example_args \<noteq> NaN" by (simp add: example_args_def defaults_def)
  show ?thesis
    using h1 h2 h3 h4
      learning_rate_monotone [OF h1 h2 h3 h4, of example_env example_dataset "walks example_dataset" 0]
    by blast
qed

subsection \<open>Negative sampling from the table\<close>






subsection \<open>One process on its shard\<close>

lemma fast_train_sp_zero_iterations:
  assumes "batch_size a \<noteq> 0" "iterations a = 0"
  shows "fast_train_sp en a ds ws p = Some ([], Some (ZeroDivisionError ''float division by zero''))"
proof -
  have "local_horizon a ws = 0" using assms(2) by (simp add: local_horizon_def)
  then have "loop_body (neg_tape en p) a (neg_table ds) ws
      \<lceil>(of_int (int (length ws)) :: rat) / of_int (batch_size a)\<rceil> (local_horizon a ws) 0
      = Stop (Some (ZeroDivisionError ''float division by zero''))"
    by (simp add: loop_body_def decayed_lr_zero)
  then show ?thesis
    unfolding fast_train_sp_unfold[OF assms(1)] by (subst batch_loop.simps) simp
qed



lemma fast_train_mp_unfold:
  assumes "init_device_emb a = Inr ()"
  shows "fast_train_mp en a ds =
     Inr (map (\<lambda>i. fast_train_sp en a ds
                     (shard (shuffle_walks en 0 (walks ds)) (num_procs a) (int i)) i)
            [0..<nat (num_procs a)])"
  using assms by (simp add: fast_train_mp_def Let_def)







subsection \<open>The epochs of the single process\<close>









subsection \<open>The processes of the multi-process mode\<close>

lemma fast_train_sp_local:
  assumes "0 < batch_size a"
  shows "\<exists>evs st. fast_train_sp en a ds ws p = Some (evs, st)
     \<and> int (length (rates evs)) \<le> shard_batches a ws
     \<and> rates evs = map (\<lambda>k. lr_schedule (lr a) (local_horizon a ws) (int k))
                      [0..<length (rates evs)]
     \<and> (\<forall>b r ng. Learn b r ng \<in> set evs \<longrightarrow> (\<exists>k. b = batch_of ws (batch_size a) k))"
proof -
  from fast_train_sp_rates[OF assms, of en ds ws p] obtain evs st where
    r: "fast_train_sp en a ds ws p = Some (evs, st)"
    and rt: "rates evs = map (\<lambda>k. lr_schedule (lr a) (iterations a * shard_batches a ws) (int k))
                      [0..<length (rates evs)]"
    and bd: "int (length (rates evs)) \<le> shard_batches a ws" by blast
  have h: "iterations a * shard_batches a ws = local_horizon a ws"
    by (simp only: shard_batches_def local_horizon_def)
  have nb: "0 \<le> shard_batches a ws" using bd by linarith
  have "\<exists>k. b = batch_of ws (batch_size a) k" if "Learn b r ng \<in> set evs" for b r ng
  proof -
    from fast_train_sp_origin[OF r that] obtain j fin where
      "loop_body (neg_tape en p) a (neg_table ds) ws (shard_batches a ws)
         (local_horizon a ws) j = Do (Learn b r ng) fin" by blast
    from loop_body_batch[OF this nb assms] show ?thesis by blast
  qed
  then show ?thesis using r rt bd unfolding h by blast
qed

lemma horizons_agree:
  assumes "iterations a \<noteq> 0"
  shows "(local_horizon a ws = local_horizon a ws') = (shard_batches a ws = shard_batches a ws')"
  using assms by (simp add: local_horizon_def shard_batches_def)

text \<open>
  C7, as amended. In multi-process mode every process works on its own shard only: what
  process \<open>p\<close> does is what \<^verbatim>\<open>fast_train_sp\<close> does on shard \<open>p\<close>, its batches are
  batches of that shard, and its learning rates follow the schedule with the local
  horizon \<open>iterations * ceil(len(own shard) / batch_size)\<close>, in which nothing of another
  shard occurs. Two processes have the same horizon exactly when their shards have the
  same number of batches (for a non-zero iteration count): shards of different sizes
  have different horizons only if their batch counts differ.
\<close>

theorem worker_schedule_is_local:
  assumes "init_device_emb a = Inr ()" "0 < batch_size a"
  shows "(\<exists>rs. fast_train_mp en a ds = Inr rs \<and> length rs = nat (num_procs a)
      \<and> (\<forall>p<nat (num_procs a).
            rs ! p = fast_train_sp en a ds
                       (shard (shuffle_walks en 0 (walks ds)) (num_procs a) (int p)) p
            \<and> (\<exists>evs st. rs ! p = Some (evs, st)
                  \<and> int (length (rates evs))
                      \<le> shard_batches a (shard (shuffle_walks en 0 (walks ds)) (num_procs a) (int p))
                  \<and> rates evs =
                      map (\<lambda>k. lr_schedule (lr a)
                                 (local_horizon a
                                    (shard (shuffle_walks en 0 (walks ds)) (num_procs a) (int p)))
                                 (int k))
                        [0..<length (rates evs)]
                  \<and> (\<forall>b r ng. Learn b r ng \<in> set evs \<longrightarrow>
                        (\<exists>k. b = batch_of (shard (shuffle_walks en 0 (walks ds)) (num_procs a) (int p))
                                   (batch_size a) k)))))
    \<and> (\<forall>ws ws'. iterations a \<noteq> 0 \<longrightarrow>
          (local_horizon a ws = local_horizon a ws') = (shard_batches a ws = shard_batches a ws'))"
proof (intro conjI allI impI)
  let ?rs = "map (\<lambda>i. fast_train_sp en a ds
                     (shard (shuffle_walks en 0 (walks ds)) (num_procs a) (int i)) i)
            [0..<nat (num_procs a)]"
  have run: "fast_train_mp en a ds = Inr ?rs" using assms(1) by (rule fast_train_mp_unfold)
  have len: "length ?rs = nat (num_procs a)" by simp
  have each: "?rs ! p = fast_train_sp en a ds
                       (shard (shuffle_walks en 0 (walks ds)) (num_procs a) (int p)) p"
    if "p < nat (num_procs a)" for p
    using that by simp
  show "\<exists>rs. fast_train_mp en a ds = Inr rs \<and> length rs = nat (num_procs a)
      \<and> (\<forall>p<nat (num_procs a).
            rs ! p = fast_train_sp en a ds
                       (shard (shuffle_walks en 0 (walks ds)) (num_procs a) (int p)) p
            \<and> (\<exists>evs st. rs ! p = Some (evs, st)
                  \<and> int (length (rates evs))
                      \<le> shard_batches a (shard (shuffle_walks en 0 (walks ds)) (num_procs a) (int p))
                  \<and> rates evs =
                      map (\<lambda>k. lr_schedule (lr a)
                                 (local_horizon a
                                    (shard (shuffle_walks en 0 (walks ds)) (num_procs a) (int p)))
                                 (int k))
                        [0..<length (rates evs)]
                  \<and> (\<forall>b r ng. Learn b r ng \<in> set evs \<longrightarrow>
                        (\<exists>k. b = batch_of (shard (shuffle_walks en 0 (walks ds)) (num_procs a) (int p))
                                   (batch_size a) k))))"
  proof (rule exI[of _ ?rs], intro conjI allI impI)
    show "fast_train_mp en a ds = Inr ?rs" by (rule run)
    show "length ?rs = nat (num_procs a)" by (rule len)
    fix p assume p: "p < nat (num_procs a)"
    show "?rs ! p = fast_train_sp en a ds
                       (shard (shuffle_walks en 0 (walks ds)) (num_procs a) (int p)) p"
      using p by (rule each)
    show "\<exists>evs st. ?rs ! p = Some (evs, st)
                  \<and> int (length (rates evs))
                      \<le> shard_batches a (shard (shuffle_walks en 0 (walks ds)) (num_procs a) (int p))
                  \<and> rates evs =
                      map (\<lambda>k. lr_schedule (lr a)
                                 (local_horizon a
                                    (shard (shuffle_walks en 0 (walks ds)) (num_procs a) (int p)))
                                 (int k))
                        [0..<length (rates evs)]
                  \<and> (\<forall>b r ng. Learn b r ng \<in> set evs \<longrightarrow>
                        (\<exists>k. b = batch_of (shard (shuffle_walks en 0 (walks ds)) (num_procs a) (int p))
                                   (batch_size a) k))"
      unfolding each[OF p] using assms(2) by (rule fast_train_sp_local)
  qed
next
  fix ws ws' :: "walk list" assume "iterations a \<noteq> 0"
  then show "(local_horizon a ws = local_horizon a ws') = (shard_batches a ws = shard_batches a ws')"
    by (rule horizons_agree)
qed

theorem worker_schedule_is_local_counterexample:
  "length (shard (shuffle_walks example_env 0 (walks example_dataset)) 2 0)
     \<noteq> length (shard (shuffle_walks example_env 0 (walks example_dataset)) 2 1)
   \<and> local_horizon (example_args\<lparr>num_procs := 2, fast_neg := True\<rparr>)
        (shard (shuffle_walks example_env 0 (walks example_dataset)) 2 0)
      = local_horizon (example_args\<lparr>num_procs := 2, fast_neg := True\<rparr>)
        (shard (shuffle_walks example_env 0 (walks example_dataset)) 2 1)
   \<and> fast_train_mp example_env (example_args\<lparr>num_procs := 2, fast_neg := True\<rparr>) example_dataset
      = Inr [Some ([Learn [[2, 0]] (Fin (1 / 5)) None], None),
             Some ([Learn [[1, 2], [0, 1]] (Fin (1 / 5)) None], None)]"
proof -
  let ?a = "example_args\<lparr>num_procs := 2, fast_neg := True\<rparr>"
  have ok: "init_device_emb ?a = Inr ()" by code_simp
  have np: "num_procs ?a = 2" by simp
  have s0: "shard (shuffle_walks example_env 0 (walks example_dataset)) 2 0 = [[2, 0]]"
    by code_simp
  have s1: "shard (shuffle_walks example_env 0 (walks example_dataset)) 2 1 = [[1, 2], [0, 1]]"
    by code_simp
  have s0': "shard (shuffle_walks example_env 0 (walks example_dataset)) 2 (int 0) = [[2, 0]]"
    by code_simp
  have s1': "shard (shuffle_walks example_env 0 (walks example_dataset)) 2 (int (Suc 0))
      = [[1, 2], [0, 1]]"
    by code_simp
  have h0: "local_horizon ?a [[2, 0]] = 2" by code_simp
  have h1: "local_horizon ?a [[1, 2], [0, 1]] = 2" by code_simp
  have w0: "fast_train_sp example_env ?a example_dataset [[2, 0]] 0
      = Some ([Learn [[2, 0]] (Fin (1 / 5)) None], None)" by code_simp
  have w1: "fast_train_sp example_env ?a example_dataset [[1, 2], [0, 1]] (Suc 0)
      = Some ([Learn [[1, 2], [0, 1]] (Fin (1 / 5)) None], None)" by code_simp
  have up: "[0..<nat 2] = [0, Suc 0]" by (simp add: upt_conv_Cons)
  have "fast_train_mp example_env ?a example_dataset
      = Inr [Some ([Learn [[2, 0]] (Fin (1 / 5)) None], None),
             Some ([Learn [[1, 2], [0, 1]] (Fin (1 / 5)) None], None)]"
    unfolding fast_train_mp_unfold[OF ok] np up by (simp only: list.map s0' s1' w0 w1)
  then show ?thesis unfolding s0 s1 h0 h1 by simp
qed

theorem worker_schedule_is_local_witness:
  "init_device_emb (example_args\<lparr>num_procs := 2\<rparr>) = Inr ()
   \<and> 0 < batch_size (example_args\<lparr>num_procs := 2\<rparr>)
   \<and> (1::nat) < nat (num_procs (example_args\<lparr>num_procs := 2\<rparr>))
   \<and> iterations (example_args\<lparr>num_procs := 2\<rparr>) \<noteq> 0
   \<and> (\<exists>rs. fast_train_mp example_env (example_args\<lparr>num_procs := 2\<rparr>) example_dataset = Inr rs
        \<and> rs ! 1 = fast_train_sp example_env (example_args\<lparr>num_procs := 2\<rparr>) example_dataset
                     (shard (shuffle_walks example_env 0 (walks example_dataset))
                        (num_procs (example_args\<lparr>num_procs := 2\<rparr>)) (int 1)) 1)
   \<and> ((local_horizon (example_args\<lparr>num_procs := 2\<rparr>) [[0]]
         = local_horizon (example_args\<lparr>num_procs := 2\<rparr>) [[0], [1], [2]])
        = (shard_batches (example_args\<lparr>num_procs := 2\<rparr>) [[0]]
         = shard_batches (example_args\<lparr>num_procs := 2\<rparr>) [[0], [1], [2]]))"
proof -
  have h1: "init_device_emb (example_args\<lparr>num_procs := 2\<rparr>) = Inr ()"
    by (simp add: example_args_def defaults_def init_device_emb_def)
  have h2: "0 < batch_size (example_args\<lparr>num_procs := 2\<rparr>)" by (simp add: example_args_def)
  have h3: "(1::nat) < nat (num_procs (example_args\<lparr>num_procs := 2\<rparr>))" by simp
  have h4: "iterations (example_args\<lparr>num_procs := 2\<rparr>) \<noteq> 0" by (simp add: example_args_def)
  show ?thesis
    using h1 h2 h3 h4 worker_schedule_is_local [OF h1 h2, of example_env example_dataset] by blast
qed

subsection \<open>The command line and the negative-sampling branch\<close>

lemma parser_keeps_fast_neg:
  "\<forall>(name, act) \<in> set parser. \<forall>ns. fast_neg ns \<longrightarrow>
     (case act of
        Store_true f \<Rightarrow> fast_neg (f ns)
      | Store_str f \<Rightarrow> (\<forall>v. fast_neg (f v ns))
      | Store_int f \<Rightarrow> (\<forall>v. fast_neg (f v ns))
      | Store_float f \<Rightarrow> (\<forall>v. fast_neg (f v ns)))"
  by (simp add: parser_def)

lemma parser_action:
  assumes "map_of parser t = Some act" "fast_neg ns"
  shows "case act of
        Store_true f \<Rightarrow> fast_neg (f ns)
      | Store_str f \<Rightarrow> (\<forall>v. fast_neg (f v ns))
      | Store_int f \<Rightarrow> (\<forall>v. fast_neg (f v ns))
      | Store_float f \<Rightarrow> (\<forall>v. fast_neg (f v ns))"
proof -
  from assms(1) have "(t, act) \<in> set parser" by (rule map_of_SomeD)
  then show ?thesis using parser_keeps_fast_neg assms(2) by fastforce
qed

lemma parse_tokens_fast_neg:
  assumes "parse_tokens c ts ns = Inr a" "fast_neg ns"
  shows "fast_neg a"
  using assms
proof (induction "length ts" arbitrary: ts ns rule: less_induct)
  case less
  show ?case
  proof (cases ts)
    case Nil
    then show ?thesis using less.prems by simp
  next
    case (Cons t ts')
    show ?thesis
    proof (cases "map_of parser t")
      case None
      then show ?thesis using less.prems Cons by simp
    next
      case (Some act)
      note keep = parser_action[OF Some less.prems(2)]
      show ?thesis
      proof (cases act)
        case (Store_true f)
        then have "parse_tokens c ts' (f ns) = Inr a" using less.prems(1) Cons Some by simp
        moreover have "fast_neg (f ns)" using keep Store_true by simp
        ultimately show ?thesis using less.hyps[of ts' "f ns"] Cons by simp
      next
        case (Store_str f)
        show ?thesis
        proof (cases ts')
          case Nil
          then show ?thesis using less.prems(1) Cons Some Store_str by simp
        next
          case (Cons v ts'')
          then have "parse_tokens c ts'' (f v ns) = Inr a"
            using less.prems(1) \<open>ts = t # ts'\<close> Some Store_str by simp
          moreover have "fast_neg (f v ns)" using keep Store_str by simp
          ultimately show ?thesis using less.hyps[of ts'' "f v ns"] Cons \<open>ts = t # ts'\<close> by simp
        qed
      next
        case (Store_int f)
        show ?thesis
        proof (cases ts')
          case Nil
          then show ?thesis using less.prems(1) Cons Some Store_int by simp
        next
          case (Cons v ts'')
          show ?thesis
          proof (cases "to_int c v")
            case None
            then show ?thesis using less.prems(1) Cons \<open>ts = t # ts'\<close> Some Store_int by simp
          next
            case (Some x)
            then have "parse_tokens c ts'' (f x ns) = Inr a"
              using less.prems(1) Cons \<open>ts = t # ts'\<close> \<open>map_of parser t = Some act\<close> Store_int by simp
            moreover have "fast_neg (f x ns)" using keep Store_int by simp
            ultimately show ?thesis using less.hyps[of ts'' "f x ns"] Cons \<open>ts = t # ts'\<close> by simp
          qed
        qed
      next
        case (Store_float f)
        show ?thesis
        proof (cases ts')
          case Nil
          then show ?thesis using less.prems(1) Cons Some Store_float by simp
        next
          case (Cons v ts'')
          show ?thesis
          proof (cases "to_float c v")
            case None
            then show ?thesis using less.prems(1) Cons \<open>ts = t # ts'\<close> Some Store_float by simp
          next
            case (Some x)
            then have "parse_tokens c ts'' (f x ns) = Inr a"
              using less.prems(1) Cons \<open>ts = t # ts'\<close> \<open>map_of parser t = Some act\<close> Store_float by simp
            moreover have "fast_neg (f x ns)" using keep Store_float by simp
            ultimately show ?thesis using less.hyps[of ts'' "f x ns"] Cons \<open>ts = t # ts'\<close> by simp
          qed
        qed
      qed
    qed
  qed
qed

lemma fast_neg_default: "fast_neg defaults"
  by (simp add: defaults_def)

lemma parse_args_fast_neg:
  assumes "parse_args c argv = Inr a"
  shows "fast_neg a"
proof -
  from assms have "parse_tokens c argv defaults = Inr a" by (simp only: parse_args_def)
  then show ?thesis using fast_neg_default by (rule parse_tokens_fast_neg)
qed

lemma loop_body_fast:
  assumes "fast_neg a" "loop_body tape a table ws nb max_i i = Do ev fin"
  shows "\<exists>b r. ev = Learn b r None"
proof -
  from loop_body_Do[OF assms(2)] obtain b n where
    "ev = Learn b (lr_schedule (lr a) max_i i) n" "if fast_neg a then n = None else True"
    by (auto split: if_splits)
  then show ?thesis using assms(1) by simp
qed

text \<open>
  C10. Every command line that the parser accepts leaves \<open>fast_neg\<close> true: the option
  is a \<^verbatim>\<open>store_true\<close> with the default \<open>True\<close>, and no option stores anything else
  there. With such arguments no pass through the loop of \<^verbatim>\<open>fast_train\<close> or of
  \<^verbatim>\<open>fast_train_sp\<close> takes the branch that draws negative nodes from the table: every
  learning step of every pass, and so of every trace, is made without them.
\<close>

theorem fast_neg_always_set:
  assumes "parse_args c argv = Inr a"
  shows "fast_neg a
    \<and> (\<forall>tape table ws nb max_i i ev fin.
          loop_body tape a table ws nb max_i i = Do ev fin \<longrightarrow> (\<exists>b r. ev = Learn b r None))
    \<and> (\<forall>en ds evs st b r ng.
          fast_train en a ds = Some (evs, st) \<and> Learn b r ng \<in> set evs \<longrightarrow> ng = None)
    \<and> (\<forall>en ds ws p evs st b r ng.
          fast_train_sp en a ds ws p = Some (evs, st) \<and> Learn b r ng \<in> set evs \<longrightarrow> ng = None)"
proof (intro conjI allI impI)
  show fn: "fast_neg a" using assms by (rule parse_args_fast_neg)
  show "\<exists>b r. ev = Learn b r None"
    if "loop_body tape a table ws nb max_i i = Do ev fin" for tape table ws nb max_i i ev fin
    using fn that by (rule loop_body_fast)
  show "ng = None" if "fast_train en a ds = Some (evs, st) \<and> Learn b r ng \<in> set evs"
    for en ds evs st b r ng
  proof -
    from that fast_train_origin[of en a ds evs st b r ng] obtain ws' j fin where
      "loop_body (neg_tape en 0) a (neg_table ds) ws' (epoch_batches a ds)
         (iterations a * epoch_batches a ds) j = Do (Learn b r ng) fin" by blast
    from loop_body_fast[OF fn this] show ?thesis by simp
  qed
  show "ng = None" if "fast_train_sp en a ds ws p = Some (evs, st) \<and> Learn b r ng \<in> set evs"
    for en ds ws p evs st b r ng
  proof -
    from that fast_train_sp_origin[of en a ds ws p evs st b r ng] obtain j fin where
      "loop_body (neg_tape en p) a (neg_table ds) ws (shard_batches a ws)
         (local_horizon a ws) j = Do (Learn b r ng) fin" by blast
    from loop_body_fast[OF fn this] show ?thesis by simp
  qed
qed

theorem fast_neg_always_set_witness:
  "parse_args \<lparr>to_int = (\<lambda>s. if s = ''2'' then Some 2 else None), to_float = (\<lambda>s. None)\<rparr>
      [''--only_cpu'', ''--sgd'', ''--batch_size'', ''2'']
     = Inr (defaults\<lparr>batch_size := 2, only_cpu := True, sgd := True\<rparr>)
   \<and> fast_neg (defaults\<lparr>batch_size := 2, only_cpu := True, sgd := True\<rparr>)
   \<and> fast_train_sp example_env (defaults\<lparr>batch_size := 2, only_cpu := True, sgd := True\<rparr>)
        example_dataset (walks example_dataset) 0
      = Some ([Learn [[0, 1], [1, 2]] (Fin (1 / 5)) None, Learn [[2, 0]] (Fin (1 / 10)) None], None)"
proof -
  let ?c = "\<lparr>to_int = (\<lambda>s. if s = ''2'' then Some 2 else None), to_float = (\<lambda>s. None)\<rparr>"
  let ?a = "defaults\<lparr>batch_size := 2, only_cpu := True, sgd := True\<rparr>"
  have h: "parse_args ?c [''--only_cpu'', ''--sgd'', ''--batch_size'', ''2''] = Inr ?a"
    by code_simp
  have run: "fast_train_sp example_env ?a example_dataset (walks example_dataset) 0
      = Some ([Learn [[0, 1], [1, 2]] (Fin (1 / 5)) None, Learn [[2, 0]] (Fin (1 / 10)) None], None)"
    by code_simp
  note t = fast_neg_always_set [OF h]
  have "fast_neg ?a" using t by (rule conjunct1)
  then show ?thesis using h run by blast
qed

end
